theory Spec2Isabelle
  imports Complex_Main "HOL-Library.Sublist" "HOL-Library.AList" "HOL-Library.Multiset"
begin

section \<open>Python values used by the alarm parser and the simulation engine\<close>

subsection \<open>Binary64 floating point\<close>

text \<open>
  A finite Python \<^verbatim>\<open>float\<close> is modelled by the rational number it denotes.  Every
  arithmetic operation on floats is the exact operation followed by \<open>fl\<close>, rounding to
  the nearest number with a 53 bit significand, ties to the even significand.  The
  exponent range is not bounded: the quantities of this program (seconds between two
  \<^verbatim>\<open>datetime\<close>s, efficiencies, containers per hour) neither overflow nor reach the
  subnormal range.
\<close>

type_synonym pyfloat = rat

text \<open>The number of binary digits of a positive integer.\<close>

function bitlen :: "int \<Rightarrow> nat" where
  "bitlen n = (if n \<le> 0 then 0 else Suc (bitlen (n div 2)))"
  by pat_completeness auto
termination
  by (relation "measure nat") auto

definition pow2 :: "int \<Rightarrow> rat" where
  "pow2 e = (if 0 \<le> e then 2 ^ nat e else 1 / 2 ^ nat (- e))"

text \<open>\<open>binade x\<close> is the exponent \<open>b\<close> with \<open>2^b \<le> x < 2^(b+1)\<close>, for positive \<open>x\<close>.\<close>

definition binade :: "rat \<Rightarrow> int" where
  "binade x =
     (if 1 \<le> x then int (bitlen \<lfloor>x\<rfloor>) - 1
      else - int (bitlen (\<lceil>1 / x\<rceil> - 1)))"

definition round_half_even :: "rat \<Rightarrow> int" where
  "round_half_even x =
     (let f = \<lfloor>x\<rfloor>; d = x - of_int f
      in if d < 1 / 2 then f
         else if 1 / 2 < d then f + 1
         else if even f then f else f + 1)"

definition fl_pos :: "rat \<Rightarrow> rat" where
  "fl_pos x = (let e = binade x - 52 in of_int (round_half_even (x / pow2 e)) * pow2 e)"

definition fl :: "rat \<Rightarrow> pyfloat" where
  "fl x = (if x = 0 then 0 else if 0 < x then fl_pos x else - fl_pos (- x))"

text \<open>Float literals of the source, and the float operations it uses.\<close>

definition float_lit :: "rat \<Rightarrow> pyfloat" where
  "float_lit x = fl x"

definition float_of_int :: "int \<Rightarrow> pyfloat" where
  "float_of_int n = fl (of_int n)"

definition fmul :: "pyfloat \<Rightarrow> pyfloat \<Rightarrow> pyfloat" where
  "fmul a b = fl (a * b)"

definition fsub :: "pyfloat \<Rightarrow> pyfloat \<Rightarrow> pyfloat" where
  "fsub a b = fl (a - b)"

text \<open>\<^verbatim>\<open>max(a, b)\<close> of Python returns \<open>b\<close> only when \<open>b > a\<close>.\<close>

definition py_max :: "pyfloat \<Rightarrow> pyfloat \<Rightarrow> pyfloat" where
  "py_max a b = (if a < b then b else a)"

text \<open>\<^verbatim>\<open>int(x)\<close> of a float truncates toward zero.\<close>

definition int_of_float :: "pyfloat \<Rightarrow> int" where
  "int_of_float x = (if 0 \<le> x then \<lfloor>x\<rfloor> else \<lceil>x\<rceil>)"

subsection \<open>Dates and time differences\<close>

text \<open>
  A naive \<^verbatim>\<open>datetime\<close> has microsecond resolution: it is the number of microseconds
  since a fixed origin.  The difference of two is a \<^verbatim>\<open>timedelta\<close>, again a whole
  number of microseconds, and \<^verbatim>\<open>total_seconds()\<close> is the correctly rounded
  quotient of that number by \<open>10^6\<close>.
\<close>

type_synonym datetime = int
type_synonym timedelta = int

definition total_seconds :: "timedelta \<Rightarrow> pyfloat" where
  "total_seconds d = fl (of_int d / 1000000)"

section \<open>krones_alarm_data: the alarm record\<close>

record KronesAlarm =
  module :: string
  msg_nr :: int
  alarm_type :: string
  message :: string
  sw_ref :: string
  comes_timestamp :: datetime
  goes_timestamp :: "datetime option"
  duration_ms :: "int option"

text \<open>
  \<^verbatim>\<open>__post_init__\<close>: a \<^verbatim>\<open>datetime\<close> is always truthy, so the test
  \<^verbatim>\<open>if self.goes_timestamp and self.comes_timestamp\<close> asks whether the clear
  timestamp is not \<^verbatim>\<open>None\<close>.
\<close>

definition post_init :: "KronesAlarm \<Rightarrow> KronesAlarm" where
  "post_init self =
     (case goes_timestamp self of
        None \<Rightarrow> self
      | Some goes \<Rightarrow>
          (let delta = goes - comes_timestamp self
           in self\<lparr>duration_ms := Some (int_of_float (fmul (total_seconds delta) 1000))\<rparr>))"

definition mk_KronesAlarm ::
  "string \<Rightarrow> int \<Rightarrow> string \<Rightarrow> string \<Rightarrow> string \<Rightarrow> datetime \<Rightarrow> datetime option \<Rightarrow> KronesAlarm" where
  "mk_KronesAlarm m n t msg ref comes goes =
     post_init \<lparr>module = m, msg_nr = n, alarm_type = t, message = msg, sw_ref = ref,
       comes_timestamp = comes, goes_timestamp = goes, duration_ms = None\<rparr>"

subsection \<open>Strings, table cells and the errors Python raises\<close>

datatype py_error = ValueError | IndexError | OverflowError

definition bind_err :: "py_error + 'a \<Rightarrow> ('a \<Rightarrow> py_error + 'b) \<Rightarrow> py_error + 'b" where
  "bind_err m f = (case m of Inl e \<Rightarrow> Inl e | Inr x \<Rightarrow> f x)"

text \<open>
  A cell of the data frame that \<^verbatim>\<open>read_csv\<close> returns: missing (\<^verbatim>\<open>NaN\<close>), a string, an
  integer of 64 bits, a truth value, a finite float, or an infinite float with its sign
  (\<open>True\<close> for the negative one).  A finite float comes with the string that \<^verbatim>\<open>str\<close>
  prints for it, so that printing floats is no part of the model: what is proved of a row
  holds whichever string that is.
\<close>

datatype cell =
    CNaN
  | CStr string
  | CInt int
  | CBool bool
  | CFloat pyfloat string
  | CInf bool

definition is_digit :: "char \<Rightarrow> bool" where
  "is_digit c = (48 \<le> (of_char c :: nat) \<and> (of_char c :: nat) \<le> 57)"

definition digit_val :: "char \<Rightarrow> nat" where
  "digit_val c = of_char c - 48"

definition digit_char :: "nat \<Rightarrow> char" where
  "digit_char n = char_of (48 + n)"

fun show_nat :: "nat \<Rightarrow> string" where
  "show_nat n = (if n < 10 then [digit_char n] else show_nat (n div 10) @ [digit_char (n mod 10)])"

definition show_int :: "int \<Rightarrow> string" where
  "show_int i = (if i < 0 then CHR ''-'' # show_nat (nat (- i)) else show_nat (nat i))"

text \<open>\<^verbatim>\<open>str(x)\<close> of a cell.\<close>

definition py_str :: "cell \<Rightarrow> string" where
  "py_str c =
     (case c of
        CNaN \<Rightarrow> ''nan''
      | CStr s \<Rightarrow> s
      | CInt i \<Rightarrow> show_int i
      | CBool b \<Rightarrow> (if b then ''True'' else ''False'')
      | CFloat x s \<Rightarrow> s
      | CInf negative \<Rightarrow> (if negative then ''-inf'' else ''inf''))"

text \<open>
  A string is the list of its characters, each a code point below 256 (strings with
  other code points are outside the model).

  \<^verbatim>\<open>int(x)\<close> of a string: surrounding blanks are dropped, a sign may come first, then
  decimal digits, single underscores allowed between digits.  The blanks that
  \<^verbatim>\<open>int\<close> drops are the code points 9 to 13 and 32, and the two spaces 133 and 160
  beyond ASCII; the separators 28 to 31 are not among them.  The only digits below 256
  are the ASCII ones.  More than 4300 digits are refused (the default of
  \<^verbatim>\<open>sys.int_info.default_max_str_digits\<close>).  Anything refused raises
  \<^verbatim>\<open>ValueError\<close>, as does \<^verbatim>\<open>int(float('nan'))\<close>.  \<^verbatim>\<open>int\<close> of a finite float cuts
  off its fraction, of an infinite one raises \<^verbatim>\<open>OverflowError\<close>, and of a truth value
  is 1 or 0.
\<close>

definition is_space :: "char \<Rightarrow> bool" where
  "is_space c =
     (let n = (of_char c :: nat) in (9 \<le> n \<and> n \<le> 13) \<or> n = 32 \<or> n = 133 \<or> n = 160)"

definition strip :: "string \<Rightarrow> string" where
  "strip s = rev (dropWhile is_space (rev (dropWhile is_space s)))"

fun int_digits :: "int \<Rightarrow> string \<Rightarrow> int option" where
  "int_digits acc [] = Some acc"
| "int_digits acc (c # cs) =
     (if is_digit c then int_digits (10 * acc + int (digit_val c)) cs
      else if c = CHR ''_'' then
        (case cs of
           [] \<Rightarrow> None
         | d # ds \<Rightarrow> if is_digit d then int_digits (10 * acc + int (digit_val d)) ds else None)
      else None)"

definition int_literal :: "string \<Rightarrow> int option" where
  "int_literal s =
     (case s of
        [] \<Rightarrow> None
      | c # cs \<Rightarrow>
          if is_digit c \<and> length (filter is_digit s) \<le> 4300
          then int_digits (int (digit_val c)) cs else None)"

definition int_of_string :: "string \<Rightarrow> py_error + int" where
  "int_of_string s =
     (let t = strip s;
          r = (case t of
                 [] \<Rightarrow> None
               | c # cs \<Rightarrow>
                   if c = CHR ''-'' then map_option uminus (int_literal cs)
                   else if c = CHR ''+'' then int_literal cs
                   else int_literal t)
      in case r of None \<Rightarrow> Inl ValueError | Some i \<Rightarrow> Inr i)"

definition py_int :: "cell \<Rightarrow> py_error + int" where
  "py_int c =
     (case c of
        CNaN \<Rightarrow> Inl ValueError
      | CStr s \<Rightarrow> int_of_string s
      | CInt i \<Rightarrow> Inr i
      | CBool b \<Rightarrow> Inr (if b then 1 else 0)
      | CFloat x s \<Rightarrow> Inr (int_of_float x)
      | CInf negative \<Rightarrow> Inl OverflowError)"

text \<open>\<^verbatim>\<open>row.iloc[i]\<close> raises \<^verbatim>\<open>IndexError\<close> past the last column.\<close>

definition iloc :: "cell list \<Rightarrow> nat \<Rightarrow> py_error + cell" where
  "iloc row i = (if i < length row then Inr (row ! i) else Inl IndexError)"

text \<open>
  \<^verbatim>\<open>s.lower()\<close>: below 256 the capital letters are the ASCII ones, 65 to 90, and the
  Latin-1 ones, 192 to 222 without the multiplication sign 215; each has its small letter
  32 places on.  Then the substring test \<^verbatim>\<open>sub in s\<close>.
\<close>

definition lower_char :: "char \<Rightarrow> char" where
  "lower_char c =
     (let n = (of_char c :: nat)
      in if (65 \<le> n \<and> n \<le> 90) \<or> (192 \<le> n \<and> n \<le> 222 \<and> n \<noteq> 215)
         then char_of (n + 32) else c)"

definition lower :: "string \<Rightarrow> string" where
  "lower s = map lower_char s"

fun contains :: "string \<Rightarrow> string \<Rightarrow> bool" where
  "contains sub [] = (sub = [])"
| "contains sub (c # cs) = (prefix sub (c # cs) \<or> contains sub cs)"

section \<open>krones_alarm_data: the parser\<close>

text \<open>
  \<^verbatim>\<open>datetime.strptime\<close> belongs to the standard library: the parser takes it as the
  parameter \<open>strptime\<close>, which maps a string and a format to a \<^verbatim>\<open>datetime\<close>, or to
  \<open>None\<close> where the library raises \<^verbatim>\<open>ValueError\<close>.  \<^verbatim>\<open>datetime.now()\<close> is the
  parameter \<open>now\<close>.
\<close>

type_synonym strptime_fn = "string \<Rightarrow> string \<Rightarrow> datetime option"

definition parse_timestamp :: "strptime_fn \<Rightarrow> datetime \<Rightarrow> string \<Rightarrow> datetime" where
  "parse_timestamp strptime now timestamp_str =
     (case strptime timestamp_str ''%m/%d/%Y %H:%M:%S.%f'' of
        Some t \<Rightarrow> t
      | None \<Rightarrow>
          (case strptime timestamp_str ''%m/%d/%Y %H:%M:%S'' of
             Some t \<Rightarrow> t
           | None \<Rightarrow> now))"

datatype log_entry =
    Debug_error_parsing_alarm_row py_error
  | Warning_failed_to_parse_alarm_row py_error
  | Error_failed_to_load_alarm_data py_error

text \<open>
  The body of the \<^verbatim>\<open>try\<close> of \<^verbatim>\<open>_parse_alarm_row\<close>.  \<open>now\<close> holds the two readings
  of the wall clock that the two calls of \<^verbatim>\<open>_parse_timestamp\<close> may take.
\<close>

definition parse_alarm_row_try ::
  "strptime_fn \<Rightarrow> datetime \<times> datetime \<Rightarrow> cell list \<Rightarrow> py_error + KronesAlarm option" where
  "parse_alarm_row_try strptime now row =
     bind_err (iloc row 11) (\<lambda>c11.
     bind_err (iloc row 19) (\<lambda>c19.
       let comes_str = py_str c11; goes_str = py_str c19
       in if comes_str = ''nan'' \<or> comes_str = [] then Inr None
          else
            let comes_ts = parse_timestamp strptime (fst now) comes_str;
                goes_ts = (if goes_str \<noteq> ''nan''
                           then Some (parse_timestamp strptime (snd now) goes_str) else None)
            in bind_err (iloc row 34) (\<lambda>c34.
               bind_err (iloc row 35) (\<lambda>c35.
               bind_err (py_int c35) (\<lambda>n.
               bind_err (iloc row 10) (\<lambda>c10.
               bind_err (iloc row 36) (\<lambda>c36.
               bind_err (iloc row 37) (\<lambda>c37.
                 Inr (Some (mk_KronesAlarm (py_str c34) n (py_str c10) (py_str c36)
                              (py_str c37) comes_ts goes_ts))))))))))"

text \<open>
  \<^verbatim>\<open>_parse_alarm_row\<close>: every exception of the body is caught, reported at debug level,
  and turned into \<^verbatim>\<open>None\<close>.  The result is the record, if any, and what was logged.
\<close>

definition parse_alarm_row ::
  "strptime_fn \<Rightarrow> datetime \<times> datetime \<Rightarrow> cell list \<Rightarrow> KronesAlarm option \<times> log_entry list" where
  "parse_alarm_row strptime now row =
     (case parse_alarm_row_try strptime now row of
        Inl e \<Rightarrow> (None, [Debug_error_parsing_alarm_row e])
      | Inr r \<Rightarrow> (r, []))"

record parser =
  alarms :: "KronesAlarm list"
  alarm_patterns :: "(string \<times> KronesAlarm list) list"
  log :: "log_entry list"

definition new_parser :: parser where
  "new_parser = \<lparr>alarms = [], alarm_patterns = [], log = []\<rparr>"

text \<open>
  The loop of \<^verbatim>\<open>load_alarm_data\<close> over the qualifying rows; \<open>clock i\<close> are the wall
  clock readings while row \<open>i\<close> is parsed.  \<^verbatim>\<open>_parse_alarm_row\<close> raises nothing, so
  the handler of the loop, which would log a warning, is never entered.
\<close>

fun parse_rows ::
  "strptime_fn \<Rightarrow> (nat \<Rightarrow> datetime \<times> datetime) \<Rightarrow> nat \<Rightarrow> cell list list \<Rightarrow> parser \<Rightarrow> parser" where
  "parse_rows strptime clock i [] self = self"
| "parse_rows strptime clock i (row # rows) self =
     (case parse_alarm_row strptime (clock i) row of
        (alarm, msgs) \<Rightarrow>
          parse_rows strptime clock (Suc i) rows
            (self\<lparr>alarms := alarms self @ (case alarm of None \<Rightarrow> [] | Some a \<Rightarrow> [a]),
                  log := log self @ msgs\<rparr>))"

text \<open>The filter of \<^verbatim>\<open>load_alarm_data\<close> for alarm history entries.\<close>

definition alarm_type_names :: "string list" where
  "alarm_type_names = [''Warning'', ''Fault'', ''FirstFault'', ''Note'', ''Debug'']"

definition isin :: "cell \<Rightarrow> string list \<Rightarrow> bool" where
  "isin c names = (case c of CStr s \<Rightarrow> s \<in> set names | _ \<Rightarrow> False)"

definition notna :: "cell \<Rightarrow> bool" where
  "notna c = (c \<noteq> CNaN)"

definition is_alarm_row :: "cell list \<Rightarrow> py_error + bool" where
  "is_alarm_row row =
     bind_err (iloc row 10) (\<lambda>c10.
     bind_err (iloc row 34) (\<lambda>c34.
     bind_err (iloc row 35) (\<lambda>c35.
     bind_err (iloc row 36) (\<lambda>c36.
       Inr (isin c10 alarm_type_names \<and> notna c34 \<and> notna c35 \<and> notna c36)))))"

fun filter_alarm_rows :: "cell list list \<Rightarrow> py_error + cell list list" where
  "filter_alarm_rows [] = Inr []"
| "filter_alarm_rows (row # rows) =
     bind_err (is_alarm_row row) (\<lambda>keep.
     bind_err (filter_alarm_rows rows) (\<lambda>rest.
       Inr (if keep then row # rest else rest)))"

text \<open>\<^verbatim>\<open>_build_alarm_patterns\<close>: a dictionary keeps its keys in insertion order.\<close>

definition pattern_key :: "KronesAlarm \<Rightarrow> string" where
  "pattern_key alarm = module alarm @ ''_'' @ alarm_type alarm"

definition add_to_pattern ::
  "(string \<times> KronesAlarm list) list \<Rightarrow> KronesAlarm \<Rightarrow> (string \<times> KronesAlarm list) list" where
  "add_to_pattern pats alarm =
     (let k = pattern_key alarm;
          pats1 = (if map_of pats k = None then AList.update k [] pats else pats)
      in case map_of pats1 k of
           None \<Rightarrow> pats1
         | Some bucket \<Rightarrow> AList.update k (bucket @ [alarm]) pats1)"

definition build_alarm_patterns :: "parser \<Rightarrow> parser" where
  "build_alarm_patterns self =
     self\<lparr>alarm_patterns := foldl add_to_pattern (alarm_patterns self) (alarms self)\<rparr>"

text \<open>
  \<^verbatim>\<open>load_alarm_data\<close>, from the data frame on: an exception outside the row loop is
  logged as an error and the load fails.
\<close>

definition load_alarm_data ::
  "strptime_fn \<Rightarrow> (nat \<Rightarrow> datetime \<times> datetime) \<Rightarrow> cell list list \<Rightarrow> parser \<Rightarrow> bool \<times> parser" where
  "load_alarm_data strptime clock df self =
     (case filter_alarm_rows df of
        Inl e \<Rightarrow> (False, self\<lparr>log := log self @ [Error_failed_to_load_alarm_data e]\<rparr>)
      | Inr alarm_rows \<Rightarrow>
          (True, build_alarm_patterns (parse_rows strptime clock 0 alarm_rows self)))"

text \<open>\<^verbatim>\<open>get_common_alarms\<close>.\<close>

definition get_common_alarms :: "parser \<Rightarrow> (string \<times> KronesAlarm list) list" where
  "get_common_alarms self =
     foldl (\<lambda>common_patterns (pattern, alarms).
              if 5 \<le> length alarms then AList.update pattern (take 10 alarms) common_patterns
              else common_patterns)
       [] (alarm_patterns self)"

text \<open>
  \<^verbatim>\<open>get_cascading_sequences\<close>, applied to \<^verbatim>\<open>self.alarms\<close>.  \<^verbatim>\<open>sorted\<close> is a stable
  sort.  The records may carry
  further fields: an object of the program is a record together with its identity.
\<close>

record 'a scan =
  sequences :: "'a list list"
  current_sequence :: "'a list"
  last_timestamp :: "datetime option"

definition scan_alarm :: "'a KronesAlarm_scheme scan \<Rightarrow> 'a KronesAlarm_scheme \<Rightarrow> 'a KronesAlarm_scheme scan" where
  "scan_alarm st alarm =
     (let st1 =
        (case last_timestamp st of
           None \<Rightarrow> st\<lparr>current_sequence := [alarm]\<rparr>
         | Some last_ts \<Rightarrow>
             if total_seconds (comes_timestamp alarm - last_ts) \<le> 300
             then st\<lparr>current_sequence := current_sequence st @ [alarm]\<rparr>
             else
               (let st2 = (if 3 \<le> length (current_sequence st)
                           then st\<lparr>sequences := sequences st @ [current_sequence st]\<rparr>
                           else st)
                in st2\<lparr>current_sequence := [alarm]\<rparr>))
      in st1\<lparr>last_timestamp := Some (comes_timestamp alarm)\<rparr>)"

definition get_cascading_sequences :: "'a KronesAlarm_scheme list \<Rightarrow> 'a KronesAlarm_scheme list list" where
  "get_cascading_sequences records =
     (let sorted_alarms = sort_key comes_timestamp records;
          st = foldl scan_alarm
                 \<lparr>sequences = [], current_sequence = [], last_timestamp = None\<rparr> sorted_alarms
      in if 3 \<le> length (current_sequence st)
         then sequences st @ [current_sequence st]
         else sequences st)"

section \<open>krones_opcua_server: the simulation engine\<close>

subsection \<open>Nodes, values and awaited operations\<close>

text \<open>
  A node is named by the dictionary of the server that holds it and its key there.  The
  address space lists the nodes the \<^verbatim>\<open>_setup_*_nodes\<close> functions create, with their
  initial values.
\<close>

datatype nodes = MMA | BAS | SDC | SBC | BCM | Process

type_synonym tag = "nodes \<times> string"

datatype val = VBool bool | VStr string | VFloat pyfloat | VInt int

datatype event = Write_value tag val | Sleep pyfloat

definition address_space :: "(tag \<times> val) list" where
  "address_space =
   [((MMA, ''State''), VStr ''STOPPED''),
    ((MMA, ''Speed_CPH''), VInt 0),
    ((MMA, ''Temperature''), VFloat 20),
    ((MMA, ''Pressure''), VFloat 6),
    ((MMA, ''Total_Production''), VInt 0),
    ((MMA, ''Fault_Routine_Active''), VBool False),
    ((MMA, ''Manual_Override''), VBool False),
    ((MMA, ''Air_Dehumidifier''), VBool True),
    ((MMA, ''Guard_Door_1''), VBool True),
    ((MMA, ''Level_LT100''), VFloat 50),
    ((MMA, ''Container_Transfer''), VBool True),
    ((MMA, ''Cap_Feed_Unit''), VBool True),
    ((MMA, ''Active_Alarms''), VInt 0),
    ((MMA, ''Warning_Count''), VInt 0),
    ((MMA, ''Fault_Count''), VInt 0),
    ((MMA, ''MotorProtector_100''), VBool False),
    ((MMA, ''MotorProtector_101''), VBool False),
    ((MMA, ''MotorProtector_103''), VBool False),
    ((MMA, ''ESTOP_Triggered''), VBool False),
    ((MMA, ''LevelTooHigh_LT100''), VBool False),
    ((MMA, ''GuardDoorOpen_1''), VBool False),
    ((MMA, ''OperatorPanelAccess''), VBool False),
    ((MMA, ''GuardDoorReset''), VBool False),
    ((BAS, ''BCM_Server_Status''), VStr ''ONLINE''),
    ((BAS, ''Communication_Health''), VInt 100),
    ((BAS, ''Network_Errors''), VInt 0),
    ((BAS, ''PowerLoss''), VBool False),
    ((BAS, ''ProfibusFault''), VBool False),
    ((SDC, ''Power_Supply_Status''), VStr ''OK''),
    ((SDC, ''Servo_Drive_Status''), VStr ''OK''),
    ((SDC, ''Service_Brake_Torque''), VFloat 100),
    ((SDC, ''Safety_Circuit''), VBool True),
    ((SBC, ''Stretching_Drive_12''), VFloat 0),
    ((SBC, ''Stretching_Drive_13''), VFloat 0),
    ((SBC, ''Stretching_Drive_14''), VFloat 0),
    ((SBC, ''Position_Deviation''), VFloat 0),
    ((BCM, ''Server_Connection''), VStr ''CONNECTED''),
    ((BCM, ''Data_Exchange_Rate''), VInt 1000),
    ((BCM, ''Message_Queue''), VInt 0),
    ((Process, ''Line_State''), VStr ''RUNNING''),
    ((Process, ''OEE''), VFloat 0),
    ((Process, ''Availability''), VFloat 0),
    ((Process, ''Performance''), VFloat 0),
    ((Process, ''Quality''), VFloat 0),
    ((Process, ''Downtime_Minutes''), VInt 0),
    ((Process, ''TriggerScenarioA''), VBool False),
    ((Process, ''TriggerScenarioB''), VBool False)]"

text \<open>
  The state of the server: the alarms of its parser, the fields of the simulation, the
  current value of every node, and the operations awaited so far (writes and sleeps), in
  order.  A write is taken to succeed; that every write of the engine names a node of the
  address space and carries a value of the kind the node was created with is proved
  below (\<open>accepted\<close>).
\<close>

record engine =
  parser_alarms :: "KronesAlarm list"
  current_alarms :: "KronesAlarm list"
  alarm_sequences :: "KronesAlarm list list"
  production_rate :: int
  total_production :: pyfloat
  node_values :: "tag \<Rightarrow> val option"
  trace :: "event list"

text \<open>The server once the alarm data is loaded and the address space is set up.\<close>

definition started_server :: "KronesAlarm list \<Rightarrow> engine" where
  "started_server loaded =
     \<lparr>parser_alarms = loaded, current_alarms = [],
      alarm_sequences = get_cascading_sequences loaded,
      production_rate = 0, total_production = 0,
      node_values = map_of address_space, trace = []\<rparr>"

definition write_value :: "tag \<Rightarrow> val \<Rightarrow> engine \<Rightarrow> engine" where
  "write_value t v self =
     self\<lparr>node_values := (node_values self)(t \<mapsto> v), trace := trace self @ [Write_value t v]\<rparr>"

definition sleep :: "pyfloat \<Rightarrow> engine \<Rightarrow> engine" where
  "sleep d self = self\<lparr>trace := trace self @ [Sleep d]\<rparr>"

fun perform :: "event \<Rightarrow> engine \<Rightarrow> engine" where
  "perform (Write_value t v) self = write_value t v self"
| "perform (Sleep d) self = sleep d self"

definition write_values :: "(tag \<times> val) list \<Rightarrow> engine \<Rightarrow> engine" where
  "write_values ws self = fold (\<lambda>(t, v). write_value t v) ws self"

text \<open>
  An awaited operation is accepted when it is a sleep, or a write to a key that its
  dictionary holds, of a value of the same kind (truth value, string, float, integer) as
  the initial value of the node.
\<close>

fun same_kind :: "val \<Rightarrow> val \<Rightarrow> bool" where
  "same_kind (VBool a) (VBool b) = True"
| "same_kind (VStr a) (VStr b) = True"
| "same_kind (VFloat a) (VFloat b) = True"
| "same_kind (VInt a) (VInt b) = True"
| "same_kind a b = False"

fun accepted :: "event \<Rightarrow> bool" where
  "accepted (Write_value t v) =
     (case map_of address_space t of None \<Rightarrow> False | Some v0 \<Rightarrow> same_kind v0 v)"
| "accepted (Sleep d) = True"

definition accepted_trace :: "engine \<Rightarrow> bool" where
  "accepted_trace s = list_all accepted (trace s)"

text \<open>\<^verbatim>\<open>random.choice(xs)\<close> on a list that is not empty, \<open>i\<close> being the random draw.\<close>

definition random_choice :: "nat \<Rightarrow> 'a list \<Rightarrow> 'a" where
  "random_choice i xs = xs ! (i mod length xs)"

subsection \<open>Activating and clearing an alarm\<close>

text \<open>
  The node writes of \<^verbatim>\<open>_activate_alarm\<close>, in order (the source collects the same
  list as \<^verbatim>\<open>tag_names\<close>).  \<open>deviation\<close> is the draw of
  \<^verbatim>\<open>random.uniform(5.0, 15.0)\<close>.
\<close>

definition activate_writes :: "pyfloat \<Rightarrow> KronesAlarm \<Rightarrow> (tag \<times> val) list" where
  "activate_writes deviation alarm =
     (let msg = message alarm; low = lower (message alarm)
      in if module alarm = ''MMA'' then
           (if contains ''fault routine'' low then [((MMA, ''Fault_Routine_Active''), VBool True)]
            else if contains ''manual'' low then [((MMA, ''Manual_Override''), VBool True)]
            else if contains ''dehumidifier'' low then [((MMA, ''Air_Dehumidifier''), VBool False)]
            else if contains ''guard door'' low then [((MMA, ''Guard_Door_1''), VBool False)]
            else if contains ''level'' low \<and> contains ''LT100'' msg
              then [((MMA, ''Level_LT100''), VFloat 95)]
            else if contains ''container transfer'' low
              then [((MMA, ''Container_Transfer''), VBool False)]
            else if contains ''cap feed'' low then [((MMA, ''Cap_Feed_Unit''), VBool False)]
            else [])
         else if module alarm = ''BAS'' then
           (if contains ''BCM server'' low
            then [((BAS, ''BCM_Server_Status''), VStr ''OFFLINE''),
                  ((BAS, ''Communication_Health''), VInt 0)]
            else [])
         else if module alarm = ''SDC'' then
           (if contains ''power supply'' low then [((SDC, ''Power_Supply_Status''), VStr ''FAULT'')]
            else if contains ''servo drive'' low
              then [((SDC, ''Servo_Drive_Status''), VStr ''FAULT'')]
            else if contains ''brake'' low then [((SDC, ''Service_Brake_Torque''), VFloat 50)]
            else [])
         else if module alarm = ''SBC'' then
           (if contains ''stretching drive'' low
            then ((SBC, ''Position_Deviation''), VFloat deviation) #
                 (if contains ''station: 12'' msg
                    then [((SBC, ''Stretching_Drive_12''), VFloat deviation)]
                  else if contains ''station: 13'' msg
                    then [((SBC, ''Stretching_Drive_13''), VFloat deviation)]
                  else if contains ''station: 14'' msg
                    then [((SBC, ''Stretching_Drive_14''), VFloat deviation)]
                  else [])
            else [])
         else [])"

definition activate_alarm :: "pyfloat \<Rightarrow> KronesAlarm \<Rightarrow> engine \<Rightarrow> engine" where
  "activate_alarm deviation alarm self =
     write_values (activate_writes deviation alarm)
       (self\<lparr>current_alarms := current_alarms self @ [alarm]\<rparr>)"

text \<open>The node writes of \<^verbatim>\<open>_clear_random_alarm\<close> for the alarm it has chosen.\<close>

definition clear_writes :: "KronesAlarm \<Rightarrow> (tag \<times> val) list" where
  "clear_writes alarm =
     (let msg = message alarm; low = lower (message alarm)
      in if module alarm = ''MMA'' then
           (if contains ''fault routine'' low then [((MMA, ''Fault_Routine_Active''), VBool False)]
            else if contains ''manual'' low then [((MMA, ''Manual_Override''), VBool False)]
            else if contains ''dehumidifier'' low then [((MMA, ''Air_Dehumidifier''), VBool True)]
            else if contains ''guard door'' low then [((MMA, ''Guard_Door_1''), VBool True)]
            else if contains ''level'' low \<and> contains ''LT100'' msg
              then [((MMA, ''Level_LT100''), VFloat 50)]
            else if contains ''container transfer'' low
              then [((MMA, ''Container_Transfer''), VBool True)]
            else if contains ''cap feed'' low then [((MMA, ''Cap_Feed_Unit''), VBool True)]
            else [])
         else if module alarm = ''BAS'' then
           [((BAS, ''BCM_Server_Status''), VStr ''ONLINE''),
            ((BAS, ''Communication_Health''), VInt 100)]
         else if module alarm = ''SDC'' then
           [((SDC, ''Power_Supply_Status''), VStr ''OK''),
            ((SDC, ''Servo_Drive_Status''), VStr ''OK''),
            ((SDC, ''Service_Brake_Torque''), VFloat 100)]
         else if module alarm = ''SBC'' then
           [((SBC, ''Position_Deviation''), VFloat 0),
            ((SBC, ''Stretching_Drive_12''), VFloat 0),
            ((SBC, ''Stretching_Drive_13''), VFloat 0),
            ((SBC, ''Stretching_Drive_14''), VFloat 0)]
         else [])"

text \<open>
  \<^verbatim>\<open>_clear_random_alarm\<close>: \<open>i\<close> is the draw of \<^verbatim>\<open>random.choice\<close>, and
  \<^verbatim>\<open>list.remove\<close> deletes the first element equal to the chosen alarm.
\<close>

definition clear_random_alarm :: "nat \<Rightarrow> engine \<Rightarrow> engine" where
  "clear_random_alarm i self =
     (if current_alarms self = [] then self
      else
        let alarm = random_choice i (current_alarms self)
        in write_values (clear_writes alarm)
             (self\<lparr>current_alarms := remove1 alarm (current_alarms self)\<rparr>))"

text \<open>
  \<^verbatim>\<open>_trigger_alarm_sequence\<close>: \<open>i\<close> chooses the sequence, \<open>deviations k\<close> is the draw
  for its member \<open>k\<close>.
\<close>

definition trigger_alarm_sequence :: "nat \<Rightarrow> (nat \<Rightarrow> pyfloat) \<Rightarrow> engine \<Rightarrow> engine" where
  "trigger_alarm_sequence i deviations self =
     (if alarm_sequences self = [] then self
      else
        let sequence = random_choice i (alarm_sequences self)
        in fold (\<lambda>(k, alarm) st.
                   let st1 = activate_alarm (deviations k) alarm st
                   in if int k < int (length sequence) - 1
                      then sleep (float_lit (1 / 100)) st1 else st1)
             (enumerate 0 (take 5 sequence)) self)"

definition trigger_random_alarm :: "nat \<Rightarrow> pyfloat \<Rightarrow> engine \<Rightarrow> engine" where
  "trigger_random_alarm i deviation self =
     (if parser_alarms self = [] then self
      else activate_alarm deviation (random_choice i (parser_alarms self)) self)"

definition update_alarm_counters :: "engine \<Rightarrow> engine" where
  "update_alarm_counters self =
     (let total_alarms = length (current_alarms self);
          warning_count = length (filter (\<lambda>a. alarm_type a = ''Warning'') (current_alarms self));
          fault_count = length (filter (\<lambda>a. contains ''Fault'' (alarm_type a)) (current_alarms self))
      in write_values
           [((MMA, ''Active_Alarms''), VInt (int total_alarms)),
            ((MMA, ''Warning_Count''), VInt (int warning_count)),
            ((MMA, ''Fault_Count''), VInt (int fault_count))] self)"

subsection \<open>The two scenarios\<close>

text \<open>
  \<^verbatim>\<open>_trigger_scenario_a\<close> and \<^verbatim>\<open>_trigger_scenario_b\<close> await a fixed list of
  operations, one after the other.
\<close>

definition scenario_a_script :: "event list" where
  "scenario_a_script =
   [Write_value (Process, ''Line_State'') (VStr ''STOPPED''),
    Write_value (MMA, ''MotorProtector_100'') (VBool True),
    Sleep (float_lit (5 / 1000)),
    Write_value (MMA, ''MotorProtector_101'') (VBool True),
    Sleep (float_lit (5 / 1000)),
    Write_value (MMA, ''MotorProtector_103'') (VBool True),
    Sleep (float_lit (5 / 1000)),
    Write_value (MMA, ''ESTOP_Triggered'') (VBool True),
    Sleep (float_lit (5 / 1000)),
    Write_value (BAS, ''PowerLoss'') (VBool True),
    Sleep (float_lit (5 / 1000)),
    Write_value (BAS, ''ProfibusFault'') (VBool True),
    Sleep 10,
    Write_value (MMA, ''MotorProtector_100'') (VBool False),
    Write_value (MMA, ''MotorProtector_101'') (VBool False),
    Write_value (MMA, ''MotorProtector_103'') (VBool False),
    Write_value (MMA, ''ESTOP_Triggered'') (VBool False),
    Write_value (BAS, ''PowerLoss'') (VBool False),
    Write_value (BAS, ''ProfibusFault'') (VBool False),
    Write_value (Process, ''Line_State'') (VStr ''RUNNING'')]"

definition scenario_b_script :: "event list" where
  "scenario_b_script =
   [Write_value (Process, ''Line_State'') (VStr ''STOPPED''),
    Write_value (MMA, ''LevelTooHigh_LT100'') (VBool True),
    Sleep (float_lit (5 / 1000)),
    Write_value (MMA, ''GuardDoorOpen_1'') (VBool True),
    Sleep (float_lit (5 / 1000)),
    Write_value (MMA, ''OperatorPanelAccess'') (VBool True),
    Sleep (float_lit (5 / 1000)),
    Write_value (MMA, ''GuardDoorReset'') (VBool True),
    Sleep 10,
    Write_value (MMA, ''LevelTooHigh_LT100'') (VBool False),
    Write_value (MMA, ''GuardDoorOpen_1'') (VBool False),
    Write_value (MMA, ''OperatorPanelAccess'') (VBool False),
    Write_value (MMA, ''GuardDoorReset'') (VBool False),
    Write_value (Process, ''Line_State'') (VStr ''RUNNING'')]"

definition trigger_scenario_a :: "engine \<Rightarrow> engine" where
  "trigger_scenario_a self = fold perform scenario_a_script self"

definition trigger_scenario_b :: "engine \<Rightarrow> engine" where
  "trigger_scenario_b self = fold perform scenario_b_script self"

subsection \<open>The alarm task\<close>

text \<open>
  \<^verbatim>\<open>_simulate_real_alarms\<close>: the local variables of the coroutine beside the server,
  the random draws of one pass through its loop, and the pass itself.  \<open>now\<close> is the
  reading of \<^verbatim>\<open>time.monotonic()\<close>.  A scenario is awaited inside the pass: the pass
  goes on only when the scenario has returned.
\<close>

record alarm_task =
  server :: engine
  last_scenario_time :: pyfloat
  scenario_toggle :: bool

record draws =
  sequence_choice :: nat
  sequence_deviations :: "nat \<Rightarrow> pyfloat"
  clear_choice :: nat
  alarm_choice :: nat
  alarm_deviation :: pyfloat

definition simulate_real_alarms_pass :: "pyfloat \<times> draws \<Rightarrow> alarm_task \<Rightarrow> alarm_task" where
  "simulate_real_alarms_pass inp task =
     (let now = fst inp; r = snd inp;
          task1 =
            (if 30 < fsub now (last_scenario_time task)
             then task\<lparr>server := (if \<not> scenario_toggle task
                                    then trigger_scenario_a (server task)
                                    else trigger_scenario_b (server task)),
                        scenario_toggle := \<not> scenario_toggle task,
                        last_scenario_time := now\<rparr>
             else task);
          s1 = trigger_alarm_sequence (sequence_choice r) (sequence_deviations r) (server task1);
          s2 = (if current_alarms s1 \<noteq> [] then clear_random_alarm (clear_choice r) s1 else s1);
          s3 = trigger_random_alarm (alarm_choice r) (alarm_deviation r) s2;
          s4 = update_alarm_counters s3;
          s5 = sleep (float_lit (5 / 100)) s4
      in task1\<lparr>server := s5\<rparr>)"

definition start_alarm_task :: "pyfloat \<Rightarrow> engine \<Rightarrow> alarm_task" where
  "start_alarm_task now self =
     \<lparr>server = self, last_scenario_time = now, scenario_toggle = False\<rparr>"

definition simulate_real_alarms :: "(pyfloat \<times> draws) list \<Rightarrow> alarm_task \<Rightarrow> alarm_task" where
  "simulate_real_alarms inputs task = fold simulate_real_alarms_pass inputs task"

subsection \<open>The production task\<close>

definition fadd :: "pyfloat \<Rightarrow> pyfloat \<Rightarrow> pyfloat" where
  "fadd a b = fl (a + b)"

text \<open>\<^verbatim>\<open>a / b\<close> of two integers is their correctly rounded quotient.\<close>

definition int_truediv :: "int \<Rightarrow> int \<Rightarrow> pyfloat" where
  "int_truediv a b = fl (of_int a / of_int b)"

definition efficiency_factor :: "KronesAlarm list \<Rightarrow> pyfloat" where
  "efficiency_factor active =
     (if 0 < length active
      then py_max (float_lit (2 / 10))
             (fsub 1 (fmul (float_of_int (int (length active))) (float_lit (1 / 10))))
      else 1)"

text \<open>One pass through the loop of \<^verbatim>\<open>_simulate_production\<close>.\<close>

definition simulate_production_pass :: "engine \<Rightarrow> engine" where
  "simulate_production_pass self =
     (let base_production_rate = 18000;
          rate = int_of_float (fmul (float_of_int base_production_rate)
                                 (efficiency_factor (current_alarms self)));
          s1 = write_value (MMA, ''Speed_CPH'') (VInt rate) (self\<lparr>production_rate := rate\<rparr>);
          total = fadd (total_production s1) (py_max 0 (int_truediv rate 3600));
          s2 = write_value (MMA, ''Total_Production'') (VInt (int_of_float total))
                 (s1\<lparr>total_production := total\<rparr>);
          s3 = (if filter (\<lambda>a. contains ''Fault'' (alarm_type a)) (current_alarms s2) \<noteq> []
                  then write_value (MMA, ''State'') (VStr ''FAULT'') s2
                else if current_alarms s2 \<noteq> []
                  then write_value (MMA, ''State'') (VStr ''WARNING'') s2
                else if 1000 < production_rate s2
                  then write_value (Process, ''Line_State'') (VStr ''RUNNING'')
                         (write_value (MMA, ''State'') (VStr ''RUNNING'') s2)
                else write_value (Process, ''Line_State'') (VStr ''STOPPED'')
                       (write_value (MMA, ''State'') (VStr ''STOPPED'') s2))
      in sleep 1 s3)"

subsection \<open>Schedules of the two tasks\<close>

text \<open>
  The alarm task and the production task run interleaved on one event loop.  A schedule
  lists whole passes of their loops, in the order in which they take effect.
\<close>

datatype task_pass = Alarm_pass "pyfloat \<times> draws" | Production_pass

fun run_pass :: "task_pass \<Rightarrow> alarm_task \<Rightarrow> alarm_task" where
  "run_pass (Alarm_pass inp) task = simulate_real_alarms_pass inp task"
| "run_pass Production_pass task = task\<lparr>server := simulate_production_pass (server task)\<rparr>"

definition run_schedule :: "task_pass list \<Rightarrow> alarm_task \<Rightarrow> alarm_task" where
  "run_schedule schedule task = fold run_pass schedule task"

section \<open>Vocabulary of the specification\<close>

text \<open>
  Scenario exclusivity, following the words of the specification: a scenario is a linear
  script (line state STOPPED, assert the symptom tags, dwell, reset them, line state
  RUNNING); once started it runs to its end, and no other scenario starts before.
  \<open>no_scenario_overlap pending ops\<close> reads the operations \<open>ops\<close> awaited by a task while
  \<open>pending\<close> is what remains of the script being executed: a write of STOPPED to the
  line state outside a script starts a scenario, whose whole script must follow; outside
  a script no node of a scenario is written.
\<close>

definition scenario_nodes :: "tag list" where
  "scenario_nodes =
     [(Process, ''Line_State''),
      (MMA, ''MotorProtector_100''), (MMA, ''MotorProtector_101''),
      (MMA, ''MotorProtector_103''), (MMA, ''ESTOP_Triggered''),
      (BAS, ''PowerLoss''), (BAS, ''ProfibusFault''),
      (MMA, ''LevelTooHigh_LT100''), (MMA, ''GuardDoorOpen_1''),
      (MMA, ''OperatorPanelAccess''), (MMA, ''GuardDoorReset'')]"

fun scenario_event :: "event \<Rightarrow> bool" where
  "scenario_event (Write_value t v) = (t \<in> set scenario_nodes)"
| "scenario_event (Sleep d) = False"

fun no_scenario_overlap :: "event list \<Rightarrow> event list \<Rightarrow> bool" where
  "no_scenario_overlap [] [] = True"
| "no_scenario_overlap (p # pending) [] = False"
| "no_scenario_overlap [] (e # es) =
     (if e = Write_value (Process, ''Line_State'') (VStr ''STOPPED'')
      then no_scenario_overlap (tl scenario_a_script) es
         \<or> no_scenario_overlap (tl scenario_b_script) es
      else \<not> scenario_event e \<and> no_scenario_overlap [] es)"
| "no_scenario_overlap (p # pending) (e # es) = (e = p \<and> no_scenario_overlap pending es)"

text \<open>
  The script of a scenario, following the words of the specification: the line state is
  written to STOPPED, the symptom tags are asserted in their order, 5 milliseconds apart,
  the script dwells for 10 seconds, every asserted tag is reset, and the line state is
  written back to RUNNING.
\<close>

fun assert_steps :: "tag list \<Rightarrow> event list" where
  "assert_steps [] = []"
| "assert_steps [t] = [Write_value t (VBool True)]"
| "assert_steps (t # u # ts) =
     Write_value t (VBool True) # Sleep (float_lit (5 / 1000)) # assert_steps (u # ts)"

definition scenario_script :: "tag list \<Rightarrow> event list" where
  "scenario_script symptoms =
     [Write_value (Process, ''Line_State'') (VStr ''STOPPED'')]
     @ assert_steps symptoms
     @ [Sleep 10]
     @ map (\<lambda>t. Write_value t (VBool False)) symptoms
     @ [Write_value (Process, ''Line_State'') (VStr ''RUNNING'')]"

text \<open>
  Gap grouping, following the words of the specification: the records, in order of
  activation, are cut between two consecutive records exactly where the later one comes
  more than 300 seconds, that is 300000000 microseconds, after the earlier one.
  \<open>gap_runs\<close> reads the list from its end and compares each record with the one that
  follows it.
\<close>

primrec gap_runs :: "'a KronesAlarm_scheme list \<Rightarrow> 'a KronesAlarm_scheme list list" where
  "gap_runs [] = []"
| "gap_runs (x # xs) =
     (case gap_runs xs of
        [] \<Rightarrow> [[x]]
      | r # rs \<Rightarrow>
          if comes_timestamp (hd r) - comes_timestamp x \<le> 300000000
          then (x # r) # rs else [x] # r # rs)"

text \<open>Rows of a batch, by what \<^verbatim>\<open>_parse_alarm_row\<close> meets in them.\<close>

definition comes_missing :: "cell list \<Rightarrow> bool" where
  "comes_missing row = (py_str (row ! 11) = ''nan'' \<or> py_str (row ! 11) = [])"

definition well_formed_row :: "cell list \<Rightarrow> bool" where
  "well_formed_row row =
     (is_alarm_row row = Inr True \<and> 38 \<le> length row \<and> \<not> comes_missing row
      \<and> \<not> isl (py_int (row ! 35)))"

definition bad_code_row :: "cell list \<Rightarrow> bool" where
  "bad_code_row row =
     (is_alarm_row row = Inr True \<and> 38 \<le> length row \<and> \<not> comes_missing row
      \<and> isl (py_int (row ! 35)))"

definition skip_message :: "cell list \<Rightarrow> log_entry" where
  "skip_message row = Debug_error_parsing_alarm_row (projl (py_int (row ! 35)))"

definition missing_comes_row :: "cell list \<Rightarrow> bool" where
  "missing_comes_row row = (is_alarm_row row = Inr True \<and> comes_missing row)"

text \<open>
  \<open>appends_quietly s s'\<close>: from \<open>s\<close> to \<open>s'\<close> operations were only added at the end of the
  trace, none of them on a node of a scenario.
\<close>

definition appends_quietly :: "engine \<Rightarrow> engine \<Rightarrow> bool" where
  "appends_quietly s s' =
     (prefix (trace s) (trace s')
      \<and> list_all (\<lambda>e. \<not> scenario_event e) (drop (length (trace s)) (trace s')))"

text \<open>
  \<open>from_pool s\<close>: every active alarm, and every member of a cascading sequence, is one of
  the records the parser has loaded.
\<close>

definition from_pool :: "engine \<Rightarrow> bool" where
  "from_pool s =
     (list_all (\<lambda>a. a \<in> set (parser_alarms s)) (current_alarms s)
      \<and> list_all (list_all (\<lambda>a. a \<in> set (parser_alarms s))) (alarm_sequences s))"

section \<open>Example inputs\<close>

text \<open>Concrete records, rows and states at which the properties below are evaluated.\<close>

definition example_alarm :: "datetime \<Rightarrow> KronesAlarm" where
  "example_alarm t = mk_KronesAlarm ''MMA'' 4711 ''Fault'' ''Guard door 1 open'' ''SW.1'' t None"

definition example_scan :: "KronesAlarm scan" where
  "example_scan =
     foldl scan_alarm \<lparr>sequences = [], current_sequence = [], last_timestamp = None\<rparr>
       [example_alarm 0, example_alarm 1000000, example_alarm 2000000]"

definition example_records :: "KronesAlarm list" where
  "example_records =
     [example_alarm 902002000, example_alarm 0, example_alarm 300000000,
      example_alarm 600000000, example_alarm 900001000]"

text \<open>
  Six records given out of order.  Sorted, they come at 0, 300, 600, 900.001, 901 and
  1201 seconds: the gaps are 300 seconds twice, then 300.001 seconds, then 0.999 and 300
  seconds.
\<close>

definition example_gap_records :: "KronesAlarm list" where
  "example_gap_records =
     [example_alarm 900001000, example_alarm 0, example_alarm 1201000000,
      example_alarm 300000000, example_alarm 901000000, example_alarm 600000000]"

text \<open>Records at 0, 1, 2, 400, 700 and 1000 seconds.\<close>

definition example_restart_records :: "KronesAlarm list" where
  "example_restart_records =
     [example_alarm 0, example_alarm 1000000, example_alarm 2000000,
      example_alarm 400000000, example_alarm 700000000, example_alarm 1000000000]"

text \<open>
  The values of \<^verbatim>\<open>strptime\<close> at the timestamp strings of the example rows; at every
  other string it raises.
\<close>

definition example_strptime :: strptime_fn where
  "example_strptime s fmt =
     (if fmt = ''%m/%d/%Y %H:%M:%S.%f'' \<and> s = ''09/15/2025 10:00:00.250'' then Some 250000
      else if fmt = ''%m/%d/%Y %H:%M:%S.%f'' \<and> s = ''09/15/2025 10:00:01.251'' then Some 1251000
      else if fmt = ''%m/%d/%Y %H:%M:%S'' \<and> s = ''09/15/2025 10:00:02'' then Some 2000000
      else None)"

text \<open>A row of 38 columns that passes the filter, given its two timestamps and its code.\<close>

definition example_row :: "cell \<Rightarrow> cell \<Rightarrow> cell \<Rightarrow> cell list" where
  "example_row comes goes code =
     (replicate 38 CNaN)
       [10 := CStr ''Fault'', 11 := comes, 19 := goes, 34 := CStr ''MMA'', 35 := code,
        36 := CStr ''Guard door 1 open'', 37 := CStr ''SW.1'']"

text \<open>A batch of 100 rows: five times 19 rows with a numeric code and one without.\<close>

definition example_good_row :: "cell list" where
  "example_good_row = example_row (CStr ''09/15/2025 10:00:00.250'') CNaN (CStr ''4711'')"

definition example_bad_row :: "cell list" where
  "example_bad_row = example_row (CStr ''09/15/2025 10:00:00.250'') CNaN (CStr ''47x1'')"

definition example_batch :: "cell list list" where
  "example_batch = concat (replicate 5 (replicate 19 example_good_row @ [example_bad_row]))"

text \<open>
  Eight rows that differ in the code cell: a no-break space before the digits, a unit
  separator before the digits, a next-line character after the digits, an integer, the
  float 4711.9, an infinite float, a truth value, and a digit group with an underscore.
\<close>

definition example_code_cells :: "cell list" where
  "example_code_cells =
     [CStr (CHR 0xA0 # ''4711''), CStr (CHR 0x1F # ''47''), CStr (''47'' @ [CHR 0x85]),
      CInt 4711, CFloat (47119 / 10) ''4711.9'', CInf False, CBool True, CStr ''4_711'']"

definition example_code_batch :: "cell list list" where
  "example_code_batch =
     map (example_row (CStr ''09/15/2025 10:00:00.250'') CNaN) example_code_cells"

text \<open>
  A parser holding twelve MMA faults and four SDC warnings, the warnings between the
  first faults.
\<close>

definition example_group_alarm :: "string \<Rightarrow> string \<Rightarrow> int \<Rightarrow> KronesAlarm" where
  "example_group_alarm m t n = mk_KronesAlarm m n t ''Guard door 1 open'' ''SW.1'' (1000 * n) None"

definition example_parser :: parser where
  "example_parser =
     new_parser\<lparr>alarms :=
       concat (map (\<lambda>n. [example_group_alarm ''MMA'' ''Fault'' n,
                          example_group_alarm ''SDC'' ''Warning'' n]) [1..4])
       @ map (example_group_alarm ''MMA'' ''Fault'') [5..12]\<rparr>"

definition example_power_supply_alarm :: KronesAlarm where
  "example_power_supply_alarm =
     mk_KronesAlarm ''SDC'' 210 ''Fault'' ''Power supply 24V failure'' ''SW.7'' 0 None"

definition example_bcm_alarm :: KronesAlarm where
  "example_bcm_alarm =
     mk_KronesAlarm ''BAS'' 12 ''Warning'' ''Connection to BCM server lost'' ''SW.2'' 0 None"

definition example_stretching_alarm :: KronesAlarm where
  "example_stretching_alarm =
     mk_KronesAlarm ''SBC'' 305 ''Fault'' ''Stretching drive lag error station: 12'' ''SW.3'' 0 None"

definition example_other_alarm :: KronesAlarm where
  "example_other_alarm =
     mk_KronesAlarm ''BCM'' 9 ''Note'' ''Data exchange started'' ''SW.4'' 0 None"

text \<open>The random draws of one pass of the alarm task.\<close>

definition example_draws :: draws where
  "example_draws =
     \<lparr>sequence_choice = 0, sequence_deviations = (\<lambda>k. 10), clear_choice = 2,
      alarm_choice = 1, alarm_deviation = 10\<rparr>"

definition example_guard_door_alarm :: KronesAlarm where
  "example_guard_door_alarm =
     mk_KronesAlarm ''MMA'' 4711 ''Fault'' ''Guard door 1 open'' ''SW.1'' 0 None"

section \<open>Properties of the rounding model\<close>

text \<open>
  The exponent chosen by \<open>binade\<close> brackets its argument, rounding to an integer never
  crosses an integer, and so rounding to a float never crosses a float of the same or a
  coarser grid.
\<close>

lemma bitlen_pos: "0 < n \<Longrightarrow> bitlen n = Suc (bitlen (n div 2))"
  by (subst bitlen.simps) simp

lemma bitlen_upper: "n < 2 ^ bitlen n"
proof (induction n rule: bitlen.induct)
  case (1 n)
  show ?case
  proof (cases "n \<le> 0")
    case True
    then have "n < 1" by simp
    also have "(1 :: int) \<le> 2 ^ bitlen n" by simp
    finally show ?thesis .
  next
    case False
    with 1 have "n div 2 < 2 ^ bitlen (n div 2)" by simp
    then have "n < 2 * 2 ^ bitlen (n div 2)" by linarith
    with False show ?thesis by (simp add: bitlen_pos)
  qed
qed

lemma bitlen_lower: "0 < n \<Longrightarrow> 2 ^ (bitlen n - 1) \<le> n"
proof (induction n rule: bitlen.induct)
  case (1 n)
  show ?case
  proof (cases "n div 2 \<le> 0")
    case True
    with 1(2) have "n = 1" by linarith
    then show ?thesis by (simp add: bitlen_pos)
  next
    case False
    with 1 have ih: "2 ^ (bitlen (n div 2) - 1) \<le> n div 2" by simp
    from False have "bitlen (n div 2) = Suc (bitlen (n div 2 div 2))"
      by (intro bitlen_pos) simp
    then have "(2 :: int) ^ bitlen (n div 2) = 2 * 2 ^ (bitlen (n div 2) - 1)" by simp
    moreover have "bitlen n - 1 = bitlen (n div 2)" using 1(2) by (simp add: bitlen_pos)
    ultimately have "(2 :: int) ^ (bitlen n - 1) = 2 * 2 ^ (bitlen (n div 2) - 1)" by simp
    also have "\<dots> \<le> 2 * (n div 2)" using ih by simp
    also have "\<dots> \<le> n" by simp
    finally show ?thesis .
  qed
qed

lemma pow2_powi: "pow2 e = 2 powi e"
  by (simp add: pow2_def power_int_def field_simps)

lemma pow2_pos: "0 < pow2 e"
  by (simp add: pow2_powi)

lemma pow2_add: "pow2 (a + b) = pow2 a * pow2 b"
  by (simp add: pow2_powi power_int_add)

lemma pow2_mono: "a \<le> b \<Longrightarrow> pow2 a \<le> pow2 b"
  by (simp add: pow2_powi power_int_increasing)

lemma pow2_less_cancel: "pow2 a < pow2 b \<Longrightarrow> a < b"
  using pow2_mono [of b a] by (cases "a < b") auto

lemma pow2_nat: "pow2 (int n) = 2 ^ n"
  by (simp add: pow2_def)

lemma binade_lower: assumes "0 < x" shows "pow2 (binade x) \<le> x"
proof (cases "1 \<le> x")
  case True
  define n where "n = \<lfloor>x\<rfloor>"
  from True have n: "0 < n" by (simp add: n_def)
  then have "0 < bitlen n" by (simp add: bitlen_pos)
  then have "binade x = int (bitlen n - 1)" using True by (simp add: binade_def n_def)
  then have "pow2 (binade x) = of_int (2 ^ (bitlen n - 1))" by (simp add: pow2_nat)
  also have "\<dots> \<le> of_int n" using bitlen_lower [OF n] by (simp only: of_int_le_iff)
  also have "\<dots> \<le> x" by (simp add: n_def)
  finally show ?thesis .
next
  case False
  define m where "m = \<lceil>1 / x\<rceil> - 1"
  have "1 / x \<le> of_int \<lceil>1 / x\<rceil>" by (rule le_of_int_ceiling)
  also have "\<lceil>1 / x\<rceil> = m + 1" by (simp add: m_def)
  also have "m + 1 \<le> 2 ^ bitlen m" using bitlen_upper [of m] by simp
  finally have "1 / x \<le> 2 ^ bitlen m" by simp
  then have "1 / 2 ^ bitlen m \<le> x" using assms
    by (simp add: field_simps)
  moreover have "pow2 (binade x) = 1 / 2 ^ bitlen m" using False
    by (simp add: binade_def m_def pow2_def)
  ultimately show ?thesis by simp
qed

lemma binade_upper: assumes "0 < x" shows "x < pow2 (binade x + 1)"
proof (cases "1 \<le> x")
  case True
  define n where "n = \<lfloor>x\<rfloor>"
  from True have n: "0 < n" by (simp add: n_def)
  then have "0 < bitlen n" by (simp add: bitlen_pos)
  then have b: "binade x + 1 = int (bitlen n)" using True by (simp add: binade_def n_def)
  have "x < of_int (n + 1)" unfolding n_def by linarith
  also have "(of_int (n + 1) :: rat) \<le> of_int (2 ^ bitlen n)"
    using bitlen_upper [of n] by (simp only: of_int_le_iff)
  finally show ?thesis by (simp add: b pow2_nat)
next
  case False
  define m where "m = \<lceil>1 / x\<rceil> - 1"
  from False assms have "1 < 1 / x" by simp
  then have c: "1 < \<lceil>1 / x\<rceil>" by (simp only: less_ceiling_iff of_int_1)
  then have m: "0 < m" unfolding m_def by linarith
  then have "0 < bitlen m" by (simp add: bitlen_pos)
  then have b: "binade x + 1 = - int (bitlen m - 1)" using False
    by (simp add: binade_def m_def)
  have "(of_int (2 ^ (bitlen m - 1)) :: rat) \<le> of_int m"
    using bitlen_lower [OF m] by (simp only: of_int_le_iff)
  also have "(of_int m :: rat) < 1 / x" unfolding m_def by linarith
  finally have "2 ^ (bitlen m - 1) < 1 / x" by simp
  then have "x < 1 / 2 ^ (bitlen m - 1)" using assms by (simp add: field_simps)
  moreover have "pow2 (- int (bitlen m - 1)) = 1 / 2 ^ (bitlen m - 1)"
    by (simp add: pow2_def)
  ultimately show ?thesis by (simp add: b)
qed

lemma round_half_even_ge: "of_int k \<le> x \<Longrightarrow> k \<le> round_half_even x"
proof -
  assume "of_int k \<le> x"
  then have "k \<le> \<lfloor>x\<rfloor>" by (simp add: le_floor_iff)
  then show ?thesis by (simp add: round_half_even_def Let_def)
qed

lemma round_half_even_le: assumes "x \<le> of_int k" shows "round_half_even x \<le> k"
proof (cases "x = of_int \<lfloor>x\<rfloor>")
  case True
  then have "x - of_int \<lfloor>x\<rfloor> < 1 / 2" by simp
  then have "round_half_even x = \<lfloor>x\<rfloor>" by (simp add: round_half_even_def Let_def)
  moreover have "\<lfloor>x\<rfloor> \<le> k" using assms by (simp add: floor_le_iff)
  ultimately show ?thesis by simp
next
  case False
  have "of_int \<lfloor>x\<rfloor> \<le> x" by simp
  with False have "of_int \<lfloor>x\<rfloor> < x" by linarith
  with assms have "(of_int \<lfloor>x\<rfloor> :: rat) < of_int k" by linarith
  then have "\<lfloor>x\<rfloor> + 1 \<le> k" by simp
  moreover have "round_half_even x \<le> \<lfloor>x\<rfloor> + 1" by (simp add: round_half_even_def Let_def)
  ultimately show ?thesis by linarith
qed

lemma round_half_even_near: "x - 1 / 2 \<le> of_int (round_half_even x)"
proof -
  have "x - of_int \<lfloor>x\<rfloor> < 1 / 2 \<or> 1 / 2 \<le> x - of_int \<lfloor>x\<rfloor>" by linarith
  moreover have "x < of_int \<lfloor>x\<rfloor> + 1" by linarith
  ultimately show ?thesis
    by (auto simp add: round_half_even_def Let_def)
qed

lemma fl_pos_ge:
  assumes "of_int k * pow2 (binade x - 52) \<le> x"
  shows "of_int k * pow2 (binade x - 52) \<le> fl_pos x"
proof -
  let ?p = "pow2 (binade x - 52)"
  have p: "0 < ?p" by (rule pow2_pos)
  from assms p have "of_int k \<le> x / ?p" by (simp add: field_simps)
  then have "k \<le> round_half_even (x / ?p)" by (rule round_half_even_ge)
  then have "(of_int k :: rat) \<le> of_int (round_half_even (x / ?p))" by simp
  then have "of_int k * ?p \<le> of_int (round_half_even (x / ?p)) * ?p"
    using p by (simp only: mult_le_cancel_right_pos)
  then show ?thesis by (simp add: fl_pos_def Let_def)
qed

lemma fl_pos_le:
  assumes "x \<le> of_int k * pow2 (binade x - 52)"
  shows "fl_pos x \<le> of_int k * pow2 (binade x - 52)"
proof -
  let ?p = "pow2 (binade x - 52)"
  have p: "0 < ?p" by (rule pow2_pos)
  from assms p have "x / ?p \<le> of_int k" by (simp add: field_simps)
  then have "round_half_even (x / ?p) \<le> k" by (rule round_half_even_le)
  then have "(of_int (round_half_even (x / ?p)) :: rat) \<le> of_int k" by simp
  then have "of_int (round_half_even (x / ?p)) * ?p \<le> of_int k * ?p"
    using p by (simp only: mult_le_cancel_right_pos)
  then show ?thesis by (simp add: fl_pos_def Let_def)
qed

lemma fl_pos_near: "x - pow2 (binade x - 52) / 2 \<le> fl_pos x"
proof -
  let ?p = "pow2 (binade x - 52)"
  have p: "0 < ?p" by (rule pow2_pos)
  have "(x / ?p - 1 / 2) * ?p \<le> of_int (round_half_even (x / ?p)) * ?p"
    using p round_half_even_near [of "x / ?p"] by (simp only: mult_le_cancel_right_pos)
  moreover have "(x / ?p - 1 / 2) * ?p = x - ?p / 2" using p by (simp add: field_simps)
  ultimately show ?thesis by (simp add: fl_pos_def Let_def)
qed

lemma fl_pos_nonneg: "0 \<le> x \<Longrightarrow> 0 \<le> fl_pos x"
  using fl_pos_ge [of 0 x] by simp

lemma fl_le_300: assumes "x \<le> 300" shows "fl x \<le> 300"
proof -
  consider "x = 0" | "x < 0" | "0 < x" by linarith
  then show ?thesis
  proof cases
    case 1
    then show ?thesis by (simp add: fl_def)
  next
    case 2
    then have "0 \<le> fl_pos (- x)" by (intro fl_pos_nonneg) simp
    with 2 show ?thesis by (simp add: fl_def)
  next
    case 3
    have "pow2 (binade x) \<le> x" using 3 by (rule binade_lower)
    also have "x < pow2 9" using assms by (simp add: pow2_def)
    finally have "binade x < 9" by (rule pow2_less_cancel)
    then have e: "binade x - 52 < 0" by simp
    define k where "k = (300 :: int) * 2 ^ nat (- (binade x - 52))"
    have k: "of_int k * pow2 (binade x - 52) = 300"
      using e by (simp add: k_def pow2_def)
    have "fl_pos x \<le> of_int k * pow2 (binade x - 52)"
      by (rule fl_pos_le) (simp add: k assms)
    with 3 show ?thesis by (simp add: fl_def k)
  qed
qed

lemma fl_gt_300: assumes "300 + 1 / 1000000 \<le> x" shows "300 < fl x"
proof -
  from assms have pos: "0 < x" by linarith
  have "pow2 8 < x" using assms by (simp add: pow2_def)
  also have "x < pow2 (binade x + 1)" using pos by (rule binade_upper)
  finally have "8 < binade x + 1" by (rule pow2_less_cancel)
  then consider "binade x = 8" | "9 \<le> binade x" by linarith
  then have "300 < fl_pos x"
  proof cases
    case 1
    have "x - pow2 (binade x - 52) / 2 \<le> fl_pos x" by (rule fl_pos_near)
    moreover have "pow2 (binade x - 52) / 2 < 1 / 1000000" by (simp add: 1 pow2_def)
    ultimately show ?thesis using assms by linarith
  next
    case 2
    have "of_int (2 ^ 52) * pow2 (binade x - 52) = pow2 52 * pow2 (binade x - 52)"
      by (simp add: pow2_def)
    also have "\<dots> = pow2 (binade x)" by (simp add: pow2_add [symmetric])
    finally have k: "of_int (2 ^ 52) * pow2 (binade x - 52) = pow2 (binade x)" .
    have "pow2 (binade x) \<le> x" using pos by (rule binade_lower)
    then have "of_int (2 ^ 52) * pow2 (binade x - 52) \<le> fl_pos x"
      by (intro fl_pos_ge) (simp only: k)
    then have "pow2 (binade x) \<le> fl_pos x" by (simp only: k)
    moreover have "pow2 9 \<le> pow2 (binade x)" using 2 by (rule pow2_mono)
    moreover have "(300 :: rat) < pow2 9" by (simp add: pow2_def)
    ultimately show ?thesis by linarith
  qed
  with pos show ?thesis by (simp add: fl_def)
qed

lemma total_seconds_le_300_iff: "total_seconds d \<le> 300 \<longleftrightarrow> d \<le> 300000000"
proof
  assume le: "total_seconds d \<le> 300"
  show "d \<le> 300000000"
  proof (rule ccontr)
    assume "\<not> d \<le> 300000000"
    then have "300000001 \<le> d" by simp
    then have "(of_int 300000001 :: rat) \<le> of_int d" by (simp only: of_int_le_iff)
    then have "300 + 1 / 1000000 \<le> (of_int d :: rat) / 1000000" by simp
    then have "300 < total_seconds d" unfolding total_seconds_def by (rule fl_gt_300)
    with le show False by simp
  qed
next
  assume "d \<le> 300000000"
  then have "(of_int d :: rat) \<le> of_int 300000000" by (simp only: of_int_le_iff)
  then have "(of_int d :: rat) / 1000000 \<le> 300" by simp
  then show "total_seconds d \<le> 300" unfolding total_seconds_def by (rule fl_le_300)
qed

section \<open>Cascading sequences\<close>

subsection \<open>The scan keeps a subsequence of what it has read\<close>

lemma subseq_snoc_both: "subseq xs ys \<Longrightarrow> subseq (xs @ [a]) (ys @ [a])"
  by (simp add: subseq_append) 

lemma subseq_drop_right: "subseq (xs @ zs) ys \<Longrightarrow> subseq xs ys"
  using subseq_order.trans [OF prefix_imp_subseq [OF prefixI [OF refl]]] by blast

lemma subseq_distinct: "subseq xs ys \<Longrightarrow> distinct ys \<Longrightarrow> distinct xs"
  by (induction rule: list_emb.induct) (auto dest: list_emb_set)

lemma scan_alarm_invariant:
  assumes "subseq (concat (sequences st) @ current_sequence st) pre"
    and "\<forall>s \<in> set (sequences st). 3 \<le> length s"
  shows "subseq (concat (sequences (scan_alarm st a)) @ current_sequence (scan_alarm st a)) (pre @ [a])
       \<and> (\<forall>s \<in> set (sequences (scan_alarm st a)). 3 \<le> length s)"
proof -
  have keep: "subseq ((concat (sequences st) @ current_sequence st) @ [a]) (pre @ [a])"
    using assms(1) by (rule subseq_snoc_both)
  have "subseq (concat (sequences st)) pre"
    using assms(1) by (rule subseq_drop_right)
  then have restart: "subseq (concat (sequences st) @ [a]) (pre @ [a])"
    by (rule subseq_snoc_both)
  show ?thesis
    using keep restart assms(2)
    by (auto simp add: scan_alarm_def Let_def split: option.splits)
qed

lemma foldl_scan_invariant:
  assumes "subseq (concat (sequences st) @ current_sequence st) pre"
    and "\<forall>s \<in> set (sequences st). 3 \<le> length s"
  shows "subseq (concat (sequences (foldl scan_alarm st xs)) @ current_sequence (foldl scan_alarm st xs)) (pre @ xs)
       \<and> (\<forall>s \<in> set (sequences (foldl scan_alarm st xs)). 3 \<le> length s)"
  using assms
proof (induction xs arbitrary: st pre)
  case Nil
  then show ?case by simp
next
  case (Cons a xs)
  from scan_alarm_invariant [OF Cons.prems, of a]
  have "subseq (concat (sequences (scan_alarm st a)) @ current_sequence (scan_alarm st a)) (pre @ [a])"
    and "\<forall>s \<in> set (sequences (scan_alarm st a)). 3 \<le> length s" by blast+
  from Cons.IH [OF this] show ?case by simp
qed

lemma distinct_concat_nth_disjoint:
  assumes "distinct (concat xss)" and "i < j" and "j < length xss"
  shows "set (xss ! i) \<inter> set (xss ! j) = {}"
  using assms
proof (induction xss arbitrary: i j)
  case Nil
  then show ?case by simp
next
  case (Cons xs xss)
  show ?case
  proof (cases i)
    case 0
    with Cons.prems obtain j' where j: "j = Suc j'" "j' < length xss" by (cases j) auto
    then have "xss ! j' \<in> set xss" by simp
    then have "set (xss ! j') \<subseteq> \<Union> (set ` set xss)" by blast
    with Cons.prems(1) 0 j show ?thesis by auto
  next
    case (Suc i')
    with Cons.prems obtain j' where j: "j = Suc j'" "i' < j'" "j' < length xss" by (cases j) auto
    with Cons.IH [of i' j'] Cons.prems(1) Suc show ?thesis by simp
  qed
qed

lemma subseq_set_mono: "subseq xs ys \<Longrightarrow> set xs \<subseteq> set ys"
proof
  fix x assume "subseq xs ys" and "x \<in> set xs"
  then obtain y where "y \<in> set ys" and "x = y" by (rule list_emb_set)
  then show "x \<in> set ys" by simp
qed

lemma cascading_sequences_scan:
  fixes records :: "'a KronesAlarm_scheme list"
  shows "(\<forall>s \<in> set (get_cascading_sequences records). 3 \<le> length s)
     \<and> subseq (concat (get_cascading_sequences records)) (sort_key comes_timestamp records)"
proof -
  let ?init = "\<lparr>sequences = [], current_sequence = [], last_timestamp = None\<rparr> :: 'a KronesAlarm_scheme scan"
  let ?sorted = "sort_key comes_timestamp records"
  let ?st = "foldl scan_alarm ?init ?sorted"
  have inv: "subseq (concat (sequences ?st) @ current_sequence ?st) ([] @ ?sorted)
       \<and> (\<forall>s \<in> set (sequences ?st). 3 \<le> length s)"
    by (rule foldl_scan_invariant) simp_all
  have long: "\<forall>s \<in> set (get_cascading_sequences records). 3 \<le> length s"
    using inv by (auto simp add: get_cascading_sequences_def Let_def)
  have "subseq (concat (sequences ?st)) ?sorted"
    using inv subseq_drop_right by fastforce
  with inv have "subseq (concat (get_cascading_sequences records)) ?sorted"
    by (simp add: get_cascading_sequences_def Let_def)
  with long show ?thesis by blast
qed

lemma cascading_sequences_members:
  "q \<in> set (get_cascading_sequences records) \<Longrightarrow> set q \<subseteq> set records"
proof -
  assume q: "q \<in> set (get_cascading_sequences records)"
  have "subseq (concat (get_cascading_sequences records)) (sort_key comes_timestamp records)"
    using cascading_sequences_scan [of records] by blast
  then have "set (concat (get_cascading_sequences records)) \<subseteq> set (sort_key comes_timestamp records)"
    by (rule subseq_set_mono)
  moreover have "set q \<subseteq> set (concat (get_cascading_sequences records))"
    using q by auto
  ultimately show ?thesis by simp
qed

text \<open>
  C1.  Every sequence returned by \<^verbatim>\<open>get_cascading_sequences\<close> has at least three
  members.  The members of all returned sequences, concatenated in the order returned,
  form a subsequence of the records sorted by activation time: each position of the sorted
  list is used at most once.  Hence, for records that are distinct objects, no record
  occurs twice in the concatenation and any two returned sequences are disjoint.
\<close>

theorem cascading_sequences_partition:
  fixes records :: "'a KronesAlarm_scheme list"
  shows "(\<forall>s \<in> set (get_cascading_sequences records). 3 \<le> length s)
     \<and> subseq (concat (get_cascading_sequences records)) (sort_key comes_timestamp records)
     \<and> (distinct records \<longrightarrow>
          distinct (concat (get_cascading_sequences records))
        \<and> (\<forall>i j. i < j \<and> j < length (get_cascading_sequences records) \<longrightarrow>
              set (get_cascading_sequences records ! i) \<inter> set (get_cascading_sequences records ! j) = {}))"
proof -
  let ?sorted = "sort_key comes_timestamp records"
  have sub: "subseq (concat (get_cascading_sequences records)) ?sorted"
    using cascading_sequences_scan [of records] by blast
  have dist: "distinct (concat (get_cascading_sequences records))" if "distinct records"
  proof -
    from that have "distinct ?sorted" by simp
    with sub show ?thesis by (rule subseq_distinct)
  qed
  from cascading_sequences_scan [of records] dist distinct_concat_nth_disjoint
  show ?thesis by blast
qed

theorem cascading_sequences_partition_witness:
  "distinct example_records
   \<and> get_cascading_sequences example_records =
       [[example_alarm 0, example_alarm 300000000, example_alarm 600000000]]
   \<and> distinct (concat (get_cascading_sequences example_records))
   \<and> subseq (concat (get_cascading_sequences example_records))
        (sort_key comes_timestamp example_records)"
proof -
  have d: "distinct example_records" by code_simp
  have v: "get_cascading_sequences example_records =
       [[example_alarm 0, example_alarm 300000000, example_alarm 600000000]]" by code_simp
  from cascading_sequences_partition [of example_records] d v show ?thesis by blast
qed

subsection \<open>The gap threshold\<close>

lemma gap_runs_nonempty: "xs \<noteq> [] \<Longrightarrow> gap_runs xs \<noteq> []"
  by (cases xs) (auto split: list.splits)

lemma gap_runs_no_empty: "[] \<notin> set (gap_runs xs)"
  by (induction xs) (auto split: list.splits)

lemma gap_runs_concat: "concat (gap_runs xs) = xs"
  by (induction xs) (auto split: list.splits)

lemma gap_runs_within:
  "r \<in> set (gap_runs xs) \<Longrightarrow> Suc i < length r \<Longrightarrow>
     comes_timestamp (r ! Suc i) - comes_timestamp (r ! i) \<le> 300000000"
proof (induction xs arbitrary: r i)
  case Nil
  then show ?case by simp
next
  case (Cons x xs)
  show ?case
  proof (cases "gap_runs xs")
    case Nil
    with Cons.prems show ?thesis by simp
  next
    case (Cons q qs)
    have q: "q \<noteq> []" using gap_runs_no_empty [of xs] Cons by auto
    show ?thesis
    proof (cases "r \<in> set (gap_runs xs)")
      case True
      then show ?thesis using Cons.IH Cons.prems(2) by blast
    next
      case False
      with Cons.prems(1) Cons have r: "r = x # q \<or> r = [x]"
        by (auto split: if_splits)
      with Cons.prems(2) have rq: "r = x # q" by auto
      with Cons.prems(1) Cons False q
      have le: "comes_timestamp (hd q) - comes_timestamp x \<le> 300000000"
        by (auto split: if_splits)
      show ?thesis
      proof (cases i)
        case 0
        with rq q le show ?thesis by (simp add: hd_conv_nth)
      next
        case (Suc k)
        have "q \<in> set (gap_runs xs)" using Cons by simp
        from Cons.IH [OF this, of k] Cons.prems(2) rq Suc show ?thesis by simp
      qed
    qed
  qed
qed

lemma gap_runs_between:
  "Suc j < length (gap_runs xs) \<Longrightarrow>
     300000000 < comes_timestamp (hd (gap_runs xs ! Suc j)) - comes_timestamp (last (gap_runs xs ! j))"
proof (induction xs arbitrary: j)
  case Nil
  then show ?case by simp
next
  case (Cons x xs)
  show ?case
  proof (cases "gap_runs xs")
    case Nil
    with Cons.prems show ?thesis by simp
  next
    case (Cons q qs)
    have q: "q \<noteq> []" using gap_runs_no_empty [of xs] Cons by auto
    show ?thesis
    proof (cases "comes_timestamp (hd q) - comes_timestamp x \<le> 300000000")
      case True
      then have runs: "gap_runs (x # xs) = (x # q) # qs" using Cons by simp
      show ?thesis
      proof (cases j)
        case 0
        with Cons.prems runs Cons have "Suc 0 < length (gap_runs xs)" by simp
        from Cons.IH [OF this] runs Cons 0 q show ?thesis by simp
      next
        case (Suc k)
        with Cons.prems runs Cons have "Suc (Suc k) < length (gap_runs xs)" by simp
        from Cons.IH [OF this] runs Cons Suc show ?thesis by simp
      qed
    next
      case False
      then have runs: "gap_runs (x # xs) = [x] # q # qs" using Cons by simp
      show ?thesis
      proof (cases j)
        case 0
        with False runs show ?thesis by simp
      next
        case (Suc k)
        with Cons.prems runs Cons have "Suc k < length (gap_runs xs)" by simp
        from Cons.IH [OF this] runs Cons Suc show ?thesis by simp
      qed
    qed
  qed
qed

lemma filter_butlast_last:
  "G \<noteq> [] \<Longrightarrow> filter P (butlast G) @ (if P (last G) then [last G] else []) = filter P G"
  by (induction G) auto

lemma foldl_scan_gap_runs:
  fixes st :: "'a KronesAlarm_scheme scan"
  assumes "last_timestamp st = Some t"
  shows "foldl scan_alarm st xs =
     (case gap_runs xs of
        [] \<Rightarrow> st
      | r # rs \<Rightarrow>
          if comes_timestamp (hd r) - t \<le> 300000000
          then st\<lparr>sequences := sequences st @ filter (\<lambda>s. 3 \<le> length s) (butlast ((current_sequence st @ r) # rs)),
                  current_sequence := last ((current_sequence st @ r) # rs),
                  last_timestamp := Some (comes_timestamp (last xs))\<rparr>
          else st\<lparr>sequences := sequences st @ filter (\<lambda>s. 3 \<le> length s) (butlast (current_sequence st # r # rs)),
                  current_sequence := last (r # rs),
                  last_timestamp := Some (comes_timestamp (last xs))\<rparr>)"
  using assms
proof (induction xs arbitrary: st t)
  case Nil
  then show ?case by simp
next
  case (Cons x xs)
  have lt: "last_timestamp (scan_alarm st x) = Some (comes_timestamp x)"
    by (simp add: scan_alarm_def Let_def split: option.splits)
  note ih = Cons.IH [OF lt]
  show ?case
  proof (cases "gap_runs xs")
    case Nil
    then have "xs = []" using gap_runs_nonempty by blast
    with Cons.prems show ?thesis
      by (simp add: scan_alarm_def Let_def total_seconds_le_300_iff)
  next
    case (Cons q qs)
    then have xs: "xs \<noteq> []" by auto
    have q: "q \<noteq> []" using gap_runs_no_empty [of xs] Cons by auto
    show ?thesis
      using ih Cons xs q Cons.prems
      by (simp add: scan_alarm_def Let_def total_seconds_le_300_iff)
  qed
qed

lemma cascading_sequences_gap_runs:
  fixes records :: "'a KronesAlarm_scheme list"
  shows "get_cascading_sequences records =
     filter (\<lambda>s. 3 \<le> length s) (gap_runs (sort_key comes_timestamp records))"
proof (cases "sort_key comes_timestamp records")
  case Nil
  then show ?thesis by (simp add: get_cascading_sequences_def)
next
  case (Cons x xs)
  let ?st1 = "\<lparr>sequences = [], current_sequence = [x], last_timestamp = Some (comes_timestamp x)\<rparr> :: 'a KronesAlarm_scheme scan"
  let ?init = "\<lparr>sequences = [], current_sequence = [], last_timestamp = None\<rparr> :: 'a KronesAlarm_scheme scan"
  have first: "scan_alarm ?init x = ?st1"
    by (simp add: scan_alarm_def)
  have lt: "last_timestamp ?st1 = Some (comes_timestamp x)" by simp
  note run = foldl_scan_gap_runs [OF lt, of xs]
  let ?G = "gap_runs (x # xs)"
  have G: "?G \<noteq> []" by (rule gap_runs_nonempty) simp
  have st: "sequences (foldl scan_alarm ?st1 xs) = filter (\<lambda>s. 3 \<le> length s) (butlast ?G)
          \<and> current_sequence (foldl scan_alarm ?st1 xs) = last ?G"
    unfolding run by (simp split: list.splits)
  have "get_cascading_sequences records =
      filter (\<lambda>s. 3 \<le> length s) (butlast ?G) @ (if 3 \<le> length (last ?G) then [last ?G] else [])"
    using st first by (simp add: get_cascading_sequences_def Let_def Cons del: gap_runs.simps)
  also have "\<dots> = filter (\<lambda>s. 3 \<le> length s) ?G"
    using G by (rule filter_butlast_last)
  finally show ?thesis by (simp only: Cons)
qed

text \<open>
  C2.  The sequences returned by \<^verbatim>\<open>get_cascading_sequences\<close> are the runs of at least
  three records among the gap runs of the sorted records.  The gap runs cut the sorted
  list, and nothing else: inside a run every record comes at most 300 seconds (300000000
  microseconds, so exactly 300 seconds included) after the one before it, and the first
  record of a run comes more than 300 seconds after the last record of the run before it.
  Step by step: the scan remembers the activation time of the record it has just read;
  a record that comes at most 300 seconds after the remembered time is appended to the
  running sequence and no sequence is closed; a record that comes later (for example
  after 300.001 seconds) closes the running sequence, which is kept when it has at least
  three members, and becomes the only member of the new running sequence.
\<close>

theorem gap_tie_break:
  fixes records xs :: "'a KronesAlarm_scheme list" and st :: "'a KronesAlarm_scheme scan"
  shows "get_cascading_sequences records =
           filter (\<lambda>s. 3 \<le> length s) (gap_runs (sort_key comes_timestamp records))
       \<and> concat (gap_runs xs) = xs
       \<and> (\<forall>r \<in> set (gap_runs xs). r \<noteq> []
            \<and> (\<forall>i. Suc i < length r \<longrightarrow>
                  comes_timestamp (r ! Suc i) - comes_timestamp (r ! i) \<le> 300000000))
       \<and> (\<forall>j. Suc j < length (gap_runs xs) \<longrightarrow>
             300000000 < comes_timestamp (hd (gap_runs xs ! Suc j))
                          - comes_timestamp (last (gap_runs xs ! j)))
       \<and> last_timestamp (scan_alarm st alarm) = Some (comes_timestamp alarm)
       \<and> (last_timestamp st = Some t \<longrightarrow>
            (comes_timestamp alarm - t \<le> 300000000 \<longrightarrow>
               sequences (scan_alarm st alarm) = sequences st
             \<and> current_sequence (scan_alarm st alarm) = current_sequence st @ [alarm])
          \<and> (300000000 < comes_timestamp alarm - t \<longrightarrow>
               sequences (scan_alarm st alarm) =
                 (if 3 \<le> length (current_sequence st)
                  then sequences st @ [current_sequence st] else sequences st)
             \<and> current_sequence (scan_alarm st alarm) = [alarm]))"
proof -
  have runs: "\<forall>r \<in> set (gap_runs xs). r \<noteq> []
            \<and> (\<forall>i. Suc i < length r \<longrightarrow>
                  comes_timestamp (r ! Suc i) - comes_timestamp (r ! i) \<le> 300000000)"
    using gap_runs_no_empty [of xs] gap_runs_within [of _ xs] by blast
  have cuts: "\<forall>j. Suc j < length (gap_runs xs) \<longrightarrow>
             300000000 < comes_timestamp (hd (gap_runs xs ! Suc j))
                          - comes_timestamp (last (gap_runs xs ! j))"
    using gap_runs_between [of _ xs] by blast
  have remembered: "last_timestamp (scan_alarm st alarm) = Some (comes_timestamp alarm)"
    by (simp add: scan_alarm_def Let_def split: option.splits)
  have step: "(comes_timestamp alarm - t \<le> 300000000 \<longrightarrow>
               sequences (scan_alarm st alarm) = sequences st
             \<and> current_sequence (scan_alarm st alarm) = current_sequence st @ [alarm])
          \<and> (300000000 < comes_timestamp alarm - t \<longrightarrow>
               sequences (scan_alarm st alarm) =
                 (if 3 \<le> length (current_sequence st)
                  then sequences st @ [current_sequence st] else sequences st)
             \<and> current_sequence (scan_alarm st alarm) = [alarm])"
    if "last_timestamp st = Some t"
    using that by (auto simp add: scan_alarm_def Let_def total_seconds_le_300_iff)
  from cascading_sequences_gap_runs [of records] gap_runs_concat [of xs] runs cuts remembered step
  show ?thesis by blast
qed

theorem gap_tie_break_witness:
  "gap_runs (sort_key comes_timestamp example_gap_records) =
     [[example_alarm 0, example_alarm 300000000, example_alarm 600000000],
      [example_alarm 900001000, example_alarm 901000000, example_alarm 1201000000]]
   \<and> get_cascading_sequences example_gap_records =
     [[example_alarm 0, example_alarm 300000000, example_alarm 600000000],
      [example_alarm 900001000, example_alarm 901000000, example_alarm 1201000000]]
   \<and> get_cascading_sequences example_restart_records =
     [[example_alarm 0, example_alarm 1000000, example_alarm 2000000],
      [example_alarm 400000000, example_alarm 700000000, example_alarm 1000000000]]
   \<and> last_timestamp example_scan = Some 2000000
   \<and> current_sequence (scan_alarm example_scan (example_alarm 302000000)) =
       [example_alarm 0, example_alarm 1000000, example_alarm 2000000, example_alarm 302000000]
   \<and> sequences (scan_alarm example_scan (example_alarm 302000000)) = []
   \<and> last_timestamp (scan_alarm example_scan (example_alarm 302000000)) = Some 302000000
   \<and> current_sequence (scan_alarm example_scan (example_alarm 302001000)) =
       [example_alarm 302001000]
   \<and> sequences (scan_alarm example_scan (example_alarm 302001000)) =
       [[example_alarm 0, example_alarm 1000000, example_alarm 2000000]]
   \<and> last_timestamp (scan_alarm example_scan (example_alarm 302001000)) = Some 302001000"
proof -
  let ?gap = "sort_key comes_timestamp example_gap_records"
  have g: "gap_runs ?gap =
     [[example_alarm 0, example_alarm 300000000, example_alarm 600000000],
      [example_alarm 900001000, example_alarm 901000000, example_alarm 1201000000]]"
    by code_simp
  have r: "filter (\<lambda>s. 3 \<le> length s) (gap_runs (sort_key comes_timestamp example_restart_records)) =
     [[example_alarm 0, example_alarm 1000000, example_alarm 2000000],
      [example_alarm 400000000, example_alarm 700000000, example_alarm 1000000000]]"
    by code_simp
  have h: "last_timestamp example_scan = Some 2000000" by code_simp
  have cur: "current_sequence example_scan =
      [example_alarm 0, example_alarm 1000000, example_alarm 2000000]" by code_simp
  have seqs: "sequences example_scan = []" by code_simp
  have c1: "comes_timestamp (example_alarm 302000000) = 302000000"
    and c2: "comes_timestamp (example_alarm 302001000) = 302001000"
    by (simp_all add: example_alarm_def mk_KronesAlarm_def post_init_def)
  have a: "comes_timestamp (example_alarm 302000000) - 2000000 \<le> 300000000"
    by (simp add: c1)
  have b: "300000000 < comes_timestamp (example_alarm 302001000) - 2000000"
    by (simp add: c2)
  note near = gap_tie_break [of example_gap_records ?gap example_scan "example_alarm 302000000" 2000000]
  note far = gap_tie_break [of example_restart_records ?gap example_scan "example_alarm 302001000" 2000000]
  from near g have e1: "get_cascading_sequences example_gap_records =
     [[example_alarm 0, example_alarm 300000000, example_alarm 600000000],
      [example_alarm 900001000, example_alarm 901000000, example_alarm 1201000000]]"
    by simp
  from far r have e2: "get_cascading_sequences example_restart_records =
     [[example_alarm 0, example_alarm 1000000, example_alarm 2000000],
      [example_alarm 400000000, example_alarm 700000000, example_alarm 1000000000]]"
    by simp
  from near h a have n1: "sequences (scan_alarm example_scan (example_alarm 302000000)) = sequences example_scan
      \<and> current_sequence (scan_alarm example_scan (example_alarm 302000000)) =
          current_sequence example_scan @ [example_alarm 302000000]
      \<and> last_timestamp (scan_alarm example_scan (example_alarm 302000000)) =
          Some (comes_timestamp (example_alarm 302000000))"
    by blast
  from far h b have f1: "sequences (scan_alarm example_scan (example_alarm 302001000)) =
        (if 3 \<le> length (current_sequence example_scan)
         then sequences example_scan @ [current_sequence example_scan] else sequences example_scan)
      \<and> current_sequence (scan_alarm example_scan (example_alarm 302001000)) = [example_alarm 302001000]
      \<and> last_timestamp (scan_alarm example_scan (example_alarm 302001000)) =
          Some (comes_timestamp (example_alarm 302001000))"
    by blast
  from g e1 e2 h n1 f1 show ?thesis
    by (simp add: cur seqs c1 c2)
qed

section \<open>The alarm log parser\<close>

subsection \<open>Grouping and common patterns\<close>

lemma map_of_add_to_pattern:
  "map_of (add_to_pattern pats a) k =
     (if k = pattern_key a
      then Some ((case map_of pats k of None \<Rightarrow> [] | Some bucket \<Rightarrow> bucket) @ [a])
      else map_of pats k)"
  by (simp add: add_to_pattern_def Let_def update_conv' split: option.splits)

lemma distinct_add_to_pattern:
  "distinct (map fst pats) \<Longrightarrow> distinct (map fst (add_to_pattern pats a))"
  by (simp add: add_to_pattern_def Let_def distinct_update split: option.splits)

lemma map_of_foldl_add_to_pattern:
  "map_of (foldl add_to_pattern pats xs) k =
     (case map_of pats k of
        None \<Rightarrow> (if filter (\<lambda>a. pattern_key a = k) xs = [] then None
                 else Some (filter (\<lambda>a. pattern_key a = k) xs))
      | Some bucket \<Rightarrow> Some (bucket @ filter (\<lambda>a. pattern_key a = k) xs))"
proof (induction xs arbitrary: pats)
  case Nil
  then show ?case by (simp split: option.splits)
next
  case (Cons a xs)
  show ?case
    by (simp add: Cons.IH map_of_add_to_pattern split: option.splits)
qed

lemma distinct_foldl_add_to_pattern:
  "distinct (map fst pats) \<Longrightarrow> distinct (map fst (foldl add_to_pattern pats xs))"
  by (induction xs arbitrary: pats) (simp_all add: distinct_add_to_pattern)

lemma map_of_common_fold:
  assumes "distinct (map fst pats)"
  shows "map_of (foldl (\<lambda>common_patterns (pattern, bucket).
              if 5 \<le> length bucket then AList.update pattern (take 10 bucket) common_patterns
              else common_patterns) acc pats) k =
     (case map_of pats k of
        None \<Rightarrow> map_of acc k
      | Some bucket \<Rightarrow> if 5 \<le> length bucket then Some (take 10 bucket) else map_of acc k)"
  using assms
proof (induction pats arbitrary: acc)
  case Nil
  then show ?case by simp
next
  case (Cons p pats)
  obtain pattern bucket where p: "p = (pattern, bucket)" by (cases p)
  from Cons.prems p have fresh: "map_of pats pattern = None" and d: "distinct (map fst pats)"
    by (auto simp add: map_of_eq_None_iff)
  show ?case
    using fresh by (auto simp add: p Cons.IH [OF d] update_conv' split: option.splits)
qed

lemma key_suffix_unique:
  assumes "xs @ CHR ''_'' # t = ys @ CHR ''_'' # u"
    and "CHR ''_'' \<notin> set t" and "CHR ''_'' \<notin> set u"
  shows "xs = ys \<and> t = u"
proof -
  have tw: "takeWhile (\<lambda>c. c \<noteq> CHR ''_'') (rev (zs @ CHR ''_'' # v)) = rev v"
    if "CHR ''_'' \<notin> set v" for zs v :: string
    using that by (auto simp add: takeWhile_tail)
  from assms(1) have "rev (xs @ CHR ''_'' # t) = rev (ys @ CHR ''_'' # u)" by simp
  then have "rev t = rev u" using tw [OF assms(2), of xs] tw [OF assms(3), of ys] by metis
  then have "t = u" by simp
  with assms(1) show ?thesis by simp
qed

lemma pattern_key_eq_iff:
  assumes "CHR ''_'' \<notin> set (alarm_type a)" and "CHR ''_'' \<notin> set t"
  shows "pattern_key a = m @ ''_'' @ t \<longleftrightarrow> module a = m \<and> alarm_type a = t"
  using key_suffix_unique [OF _ assms, of "module a" m]
  by (auto simp add: pattern_key_def)

lemma alarm_type_names_no_underscore: "t \<in> set alarm_type_names \<Longrightarrow> CHR ''_'' \<notin> set t"
  by (auto simp add: alarm_type_names_def)

text \<open>
  C6.  \<^verbatim>\<open>get_common_alarms\<close>, after \<^verbatim>\<open>_build_alarm_patterns\<close> has filled the empty
  dictionary from the loaded alarms: under a key \<open>k\<close> it holds a pattern exactly when the
  group of \<open>k\<close> (the alarms with that key, in the order loaded) has at least five
  members, and the pattern is the first ten members of the group, in that order (the whole
  group if it has fewer).  For alarm types among the five known ones, the group of the key
  \<open>m_t\<close> is the group of the pair of module \<open>m\<close> and type \<open>t\<close>.
\<close>

theorem common_alarms_groups:
  assumes "alarm_patterns self = []"
  shows "map_of (get_common_alarms (build_alarm_patterns self)) k =
           (let bucket = filter (\<lambda>a. pattern_key a = k) (alarms self)
            in if 5 \<le> length bucket then Some (take 10 bucket) else None)
       \<and> ((\<forall>a \<in> set (alarms self). alarm_type a \<in> set alarm_type_names)
            \<and> t \<in> set alarm_type_names \<longrightarrow>
          filter (\<lambda>a. pattern_key a = m @ ''_'' @ t) (alarms self) =
          filter (\<lambda>a. module a = m \<and> alarm_type a = t) (alarms self))"
proof -
  let ?pats = "foldl add_to_pattern [] (alarms self)"
  have d: "distinct (map fst ?pats)" by (rule distinct_foldl_add_to_pattern) simp
  have "map_of (get_common_alarms (build_alarm_patterns self)) k =
        (case map_of ?pats k of None \<Rightarrow> None
         | Some bucket \<Rightarrow> if 5 \<le> length bucket then Some (take 10 bucket) else None)"
    using map_of_common_fold [OF d, of "[]" k]
    by (simp add: get_common_alarms_def build_alarm_patterns_def assms split: option.splits)
  then have first: "map_of (get_common_alarms (build_alarm_patterns self)) k =
           (let bucket = filter (\<lambda>a. pattern_key a = k) (alarms self)
            in if 5 \<le> length bucket then Some (take 10 bucket) else None)"
    by (simp add: map_of_foldl_add_to_pattern Let_def)
  have second: "filter (\<lambda>a. pattern_key a = m @ ''_'' @ t) (alarms self) =
          filter (\<lambda>a. module a = m \<and> alarm_type a = t) (alarms self)"
    if "\<forall>a \<in> set (alarms self). alarm_type a \<in> set alarm_type_names"
      and "t \<in> set alarm_type_names"
  proof (rule filter_cong [OF refl])
    fix a assume "a \<in> set (alarms self)"
    with that have "alarm_type a \<in> set alarm_type_names" by blast
    then have "CHR ''_'' \<notin> set (alarm_type a)" by (rule alarm_type_names_no_underscore)
    moreover have "CHR ''_'' \<notin> set t" using that(2) by (rule alarm_type_names_no_underscore)
    ultimately
    show "(pattern_key a = m @ ''_'' @ t) = (module a = m \<and> alarm_type a = t)"
      by (rule pattern_key_eq_iff)
  qed
  from first second show ?thesis by blast
qed

theorem common_alarms_groups_witness:
  "alarm_patterns example_parser = []
   \<and> map_of (get_common_alarms (build_alarm_patterns example_parser)) ''MMA_Fault'' =
       Some (map (example_group_alarm ''MMA'' ''Fault'') [1..10])
   \<and> map_of (get_common_alarms (build_alarm_patterns example_parser)) ''SDC_Warning'' = None
   \<and> length (filter (\<lambda>a. module a = ''MMA'' \<and> alarm_type a = ''Fault'') (alarms example_parser)) = 12
   \<and> length (filter (\<lambda>a. module a = ''SDC'' \<and> alarm_type a = ''Warning'') (alarms example_parser)) = 4"
proof -
  have h: "alarm_patterns example_parser = []" by code_simp
  have g1: "(let bucket = filter (\<lambda>a. pattern_key a = ''MMA_Fault'') (alarms example_parser)
            in if 5 \<le> length bucket then Some (take 10 bucket) else None) =
       Some (map (example_group_alarm ''MMA'' ''Fault'') [1..10])" by code_simp
  have g2: "(let bucket = filter (\<lambda>a. pattern_key a = ''SDC_Warning'') (alarms example_parser)
            in if 5 \<le> length bucket then Some (take 10 bucket) else None) = None" by code_simp
  have n1: "length (filter (\<lambda>a. module a = ''MMA'' \<and> alarm_type a = ''Fault'') (alarms example_parser)) = 12"
    by code_simp
  have n2: "length (filter (\<lambda>a. module a = ''SDC'' \<and> alarm_type a = ''Warning'') (alarms example_parser)) = 4"
    by code_simp
  from common_alarms_groups [OF h, of "''MMA_Fault''"] g1
  have r1: "map_of (get_common_alarms (build_alarm_patterns example_parser)) ''MMA_Fault'' =
       Some (map (example_group_alarm ''MMA'' ''Fault'') [1..10])" by simp
  from common_alarms_groups [OF h, of "''SDC_Warning''"] g2
  have r2: "map_of (get_common_alarms (build_alarm_patterns example_parser)) ''SDC_Warning'' = None"
    by simp
  from h r1 r2 n1 n2 show ?thesis by simp
qed

subsection \<open>Rows that raise and rows without an activation time\<close>

lemma iloc_in_range: "i < length row \<Longrightarrow> iloc row i = Inr (row ! i)"
  by (simp add: iloc_def)

lemma is_alarm_row_length: "is_alarm_row row = Inr b \<Longrightarrow> 36 < length row"
  by (auto simp add: is_alarm_row_def bind_err_def iloc_def split: if_splits sum.splits)

lemma parse_alarm_row_missing:
  assumes "missing_comes_row row"
  shows "parse_alarm_row strptime now row = (None, [])"
proof -
  from assms have len: "36 < length row" and m: "comes_missing row"
    by (auto simp add: missing_comes_row_def dest: is_alarm_row_length)
  from len have "iloc row 11 = Inr (row ! 11)" "iloc row 19 = Inr (row ! 19)"
    by (simp_all add: iloc_in_range)
  with m show ?thesis
    by (auto simp add: parse_alarm_row_def parse_alarm_row_try_def bind_err_def Let_def
        comes_missing_def)
qed

lemma parse_alarm_row_bad_code:
  assumes "bad_code_row row"
  shows "parse_alarm_row strptime now row = (None, [skip_message row])"
proof -
  from assms have len: "38 \<le> length row" and m: "\<not> comes_missing row"
    and "isl (py_int (row ! 35))"
    by (auto simp add: bad_code_row_def)
  then obtain e where c: "py_int (row ! 35) = Inl e" by (cases "py_int (row ! 35)") auto
  from len have "iloc row 11 = Inr (row ! 11)" "iloc row 19 = Inr (row ! 19)"
    "iloc row 34 = Inr (row ! 34)" "iloc row 35 = Inr (row ! 35)"
    by (simp_all add: iloc_in_range)
  with m c show ?thesis
    by (simp add: parse_alarm_row_def parse_alarm_row_try_def bind_err_def Let_def
        comes_missing_def skip_message_def)
qed

lemma parse_alarm_row_well_formed:
  assumes "well_formed_row row"
  shows "\<exists>a. parse_alarm_row strptime now row = (Some a, [])"
proof -
  from assms have len: "38 \<le> length row" and m: "\<not> comes_missing row"
    and c: "\<not> isl (py_int (row ! 35))"
    by (auto simp add: well_formed_row_def)
  from c obtain n where n: "py_int (row ! 35) = Inr n" by (cases "py_int (row ! 35)") auto
  from len have "iloc row 11 = Inr (row ! 11)" "iloc row 19 = Inr (row ! 19)"
    "iloc row 34 = Inr (row ! 34)" "iloc row 35 = Inr (row ! 35)"
    "iloc row 10 = Inr (row ! 10)" "iloc row 36 = Inr (row ! 36)" "iloc row 37 = Inr (row ! 37)"
    by (simp_all add: iloc_in_range)
  with m n show ?thesis
    by (simp add: parse_alarm_row_def parse_alarm_row_try_def bind_err_def Let_def
        comes_missing_def)
qed

lemma parse_rows_alarms:
  "alarms (parse_rows strptime clock i rows self) =
     alarms self @ List.map_filter (\<lambda>(j, row). fst (parse_alarm_row strptime (clock j) row))
                     (enumerate i rows)"
proof (induction rows arbitrary: i self)
  case Nil
  then show ?case by (simp add: List.map_filter_simps)
next
  case (Cons row rows)
  show ?case
    by (cases "parse_alarm_row strptime (clock i) row")
       (simp add: Cons.IH List.map_filter_simps split: option.splits)
qed

lemma parse_rows_log:
  "log (parse_rows strptime clock i rows self) =
     log self @ concat (map (\<lambda>(j, row). snd (parse_alarm_row strptime (clock j) row))
                          (enumerate i rows))"
proof (induction rows arbitrary: i self)
  case Nil
  then show ?case by simp
next
  case (Cons row rows)
  show ?case
    by (cases "parse_alarm_row strptime (clock i) row") (simp add: Cons.IH)
qed

lemma parse_rows_counts:
  assumes "\<forall>row \<in> set rows. well_formed_row row \<or> bad_code_row row"
  shows "length (alarms (parse_rows strptime clock i rows self)) =
           length (alarms self) + length (filter well_formed_row rows)
       \<and> log (parse_rows strptime clock i rows self) =
           log self @ map skip_message (filter bad_code_row rows)"
  using assms
proof (induction rows arbitrary: i self)
  case Nil
  then show ?case by simp
next
  case (Cons row rows)
  from Cons.prems have rest: "\<forall>row \<in> set rows. well_formed_row row \<or> bad_code_row row"
    by simp
  have excl: "\<not> (well_formed_row row \<and> bad_code_row row)"
    by (auto simp add: well_formed_row_def bad_code_row_def)
  from Cons.prems have "well_formed_row row \<or> bad_code_row row" by simp
  then show ?case
  proof
    assume wf: "well_formed_row row"
    then obtain a where "parse_alarm_row strptime (clock i) row = (Some a, [])"
      using parse_alarm_row_well_formed by blast
    with wf excl show ?thesis by (simp add: Cons.IH [OF rest])
  next
    assume bad: "bad_code_row row"
    then have "parse_alarm_row strptime (clock i) row = (None, [skip_message row])"
      by (rule parse_alarm_row_bad_code)
    with bad excl show ?thesis
      by (simp add: Cons.IH [OF rest])
  qed
qed

lemma filter_alarm_rows_all:
  "\<forall>row \<in> set df. is_alarm_row row = Inr True \<Longrightarrow> filter_alarm_rows df = Inr df"
  by (induction df) (simp_all add: bind_err_def)

lemma well_formed_or_bad_count:
  assumes "\<forall>row \<in> set rows. well_formed_row row \<or> bad_code_row row"
  shows "length (filter well_formed_row rows) + length (filter bad_code_row rows) = length rows"
proof -
  have "filter bad_code_row rows = filter (\<lambda>r. \<not> well_formed_row r) rows"
    using assms by (intro filter_cong) (auto simp add: well_formed_row_def bad_code_row_def)
  then show ?thesis by (simp add: sum_length_filter_compl)
qed

text \<open>
  C9.  The loop of \<^verbatim>\<open>load_alarm_data\<close> parses every row on its own: the alarms are the
  results of the rows that yield one, in row order, whatever happens in the rows before,
  and the log holds what the rows logged, in row order.
  In a batch of qualifying rows with an activation time, where \<^verbatim>\<open>int\<close> either accepts the
  code of a row or raises, the load succeeds, there is one alarm for every row but those
  where \<^verbatim>\<open>int\<close> raises, and one debug message for each of these, in row order and with
  the exception raised; so 100 rows with 5 such codes give 95 alarms and 5 messages.
  A code that is not a number raises \<^verbatim>\<open>ValueError\<close>.
\<close>

theorem malformed_rows_skipped:
  "alarms (parse_rows strptime clock 0 rows new_parser) =
     List.map_filter (\<lambda>(j, row). fst (parse_alarm_row strptime (clock j) row)) (enumerate 0 rows)
   \<and> log (parse_rows strptime clock 0 rows new_parser) =
       concat (map (\<lambda>(j, row). snd (parse_alarm_row strptime (clock j) row)) (enumerate 0 rows))
   \<and> ((\<forall>row \<in> set rows. well_formed_row row \<or> bad_code_row row) \<longrightarrow>
        fst (load_alarm_data strptime clock rows new_parser)
      \<and> length (alarms (snd (load_alarm_data strptime clock rows new_parser))) =
          length rows - length (filter bad_code_row rows)
      \<and> log (snd (load_alarm_data strptime clock rows new_parser)) =
          map skip_message (filter bad_code_row rows))
   \<and> ((\<forall>row \<in> set rows. well_formed_row row \<or> bad_code_row row)
        \<and> length rows = 100 \<and> length (filter bad_code_row rows) = 5 \<longrightarrow>
        length (alarms (snd (load_alarm_data strptime clock rows new_parser))) = 95
      \<and> length (log (snd (load_alarm_data strptime clock rows new_parser))) = 5)
   \<and> (bad_code_row row \<and> (\<exists>s. row ! 35 = CStr s) \<longrightarrow>
        skip_message row = Debug_error_parsing_alarm_row ValueError)"
proof -
  have first: "alarms (parse_rows strptime clock 0 rows new_parser) =
     List.map_filter (\<lambda>(j, row). fst (parse_alarm_row strptime (clock j) row)) (enumerate 0 rows)"
    by (simp add: parse_rows_alarms new_parser_def)
  have logged: "log (parse_rows strptime clock 0 rows new_parser) =
       concat (map (\<lambda>(j, row). snd (parse_alarm_row strptime (clock j) row)) (enumerate 0 rows))"
    by (simp add: parse_rows_log new_parser_def)
  have second: "fst (load_alarm_data strptime clock rows new_parser)
      \<and> length (alarms (snd (load_alarm_data strptime clock rows new_parser))) =
          length rows - length (filter bad_code_row rows)
      \<and> log (snd (load_alarm_data strptime clock rows new_parser)) =
          map skip_message (filter bad_code_row rows)"
    if h: "\<forall>row \<in> set rows. well_formed_row row \<or> bad_code_row row"
  proof -
    from h have "\<forall>row \<in> set rows. is_alarm_row row = Inr True"
      by (auto simp add: well_formed_row_def bad_code_row_def)
    then have f: "filter_alarm_rows rows = Inr rows" by (rule filter_alarm_rows_all)
    from parse_rows_counts [OF h, of strptime clock 0 new_parser] well_formed_or_bad_count [OF h]
    show ?thesis
      by (simp add: load_alarm_data_def f build_alarm_patterns_def new_parser_def)
  qed
  have third: "skip_message row = Debug_error_parsing_alarm_row ValueError"
    if "bad_code_row row" and "\<exists>s. row ! 35 = CStr s"
    using that
    by (auto simp add: bad_code_row_def skip_message_def py_int_def int_of_string_def Let_def
        split: option.splits)
  from first logged second third show ?thesis by auto
qed

theorem malformed_rows_skipped_witness:
  "list_all (\<lambda>row. well_formed_row row \<or> bad_code_row row) example_batch
   \<and> length example_batch = 100
   \<and> length (filter bad_code_row example_batch) = 5
   \<and> length (alarms (snd (load_alarm_data example_strptime (\<lambda>i. (0, 0)) example_batch new_parser))) = 95
   \<and> length (log (snd (load_alarm_data example_strptime (\<lambda>i. (0, 0)) example_batch new_parser))) = 5
   \<and> skip_message example_bad_row = Debug_error_parsing_alarm_row ValueError
   \<and> list_all (\<lambda>row. well_formed_row row \<or> bad_code_row row) example_code_batch
   \<and> map py_int example_code_cells =
       [Inr 4711, Inl ValueError, Inr 47, Inr 4711, Inr 4711, Inl OverflowError, Inr 1, Inr 4711]
   \<and> map msg_nr
       (alarms (snd (load_alarm_data example_strptime (\<lambda>i. (0, 0)) example_code_batch new_parser))) =
       [4711, 47, 4711, 4711, 1, 4711]
   \<and> log (snd (load_alarm_data example_strptime (\<lambda>i. (0, 0)) example_code_batch new_parser)) =
       [Debug_error_parsing_alarm_row ValueError, Debug_error_parsing_alarm_row OverflowError]"
proof -
  have g: "well_formed_row example_good_row" by code_simp
  have g': "\<not> bad_code_row example_good_row" by code_simp
  have b: "bad_code_row example_bad_row" by code_simp
  have s: "\<exists>s. example_bad_row ! 35 = CStr s"
    by (simp add: example_bad_row_def example_row_def)
  have a: "list_all (\<lambda>row. well_formed_row row \<or> bad_code_row row) example_batch"
    using g b by (simp add: example_batch_def list_all_iff)
  then have a': "\<forall>row \<in> set example_batch. well_formed_row row \<or> bad_code_row row"
    by (simp add: list_all_iff)
  have l: "length example_batch = 100"
    by (simp add: example_batch_def length_concat sum_list_replicate)
  have c: "length (filter bad_code_row example_batch) = 5"
    using g' b by (simp add: example_batch_def filter_concat length_concat sum_list_replicate)
  note inst = malformed_rows_skipped [of example_strptime "\<lambda>i. (0, 0)" example_batch example_bad_row]
  from inst a' l c
  have n: "length (alarms (snd (load_alarm_data example_strptime (\<lambda>i. (0, 0)) example_batch new_parser))) = 95
      \<and> length (log (snd (load_alarm_data example_strptime (\<lambda>i. (0, 0)) example_batch new_parser))) = 5"
    by blast
  from inst b s
  have m: "skip_message example_bad_row = Debug_error_parsing_alarm_row ValueError"
    by blast
  have q: "list_all (\<lambda>row. well_formed_row row \<or> bad_code_row row) example_code_batch"
    by code_simp
  then have q': "\<forall>row \<in> set example_code_batch. well_formed_row row \<or> bad_code_row row"
    by (simp add: list_all_iff)
  have skipped: "map skip_message (filter bad_code_row example_code_batch) =
      [Debug_error_parsing_alarm_row ValueError, Debug_error_parsing_alarm_row OverflowError]"
    by code_simp
  from malformed_rows_skipped [of example_strptime "\<lambda>i. (0, 0)" example_code_batch example_bad_row] q'
  have "log (snd (load_alarm_data example_strptime (\<lambda>i. (0, 0)) example_code_batch new_parser)) =
      map skip_message (filter bad_code_row example_code_batch)"
    by blast
  then
  have lg: "log (snd (load_alarm_data example_strptime (\<lambda>i. (0, 0)) example_code_batch new_parser)) =
      [Debug_error_parsing_alarm_row ValueError, Debug_error_parsing_alarm_row OverflowError]"
    by (simp only: skipped)
  have cells: "map py_int example_code_cells =
       [Inr 4711, Inl ValueError, Inr 47, Inr 4711, Inr 4711, Inl OverflowError, Inr 1, Inr 4711]"
    by code_simp
  have nrs: "map msg_nr
       (alarms (snd (load_alarm_data example_strptime (\<lambda>i. (0, 0)) example_code_batch new_parser))) =
       [4711, 47, 4711, 4711, 1, 4711]"
    by code_simp
  from a l c n m q cells nrs lg show ?thesis by blast
qed

text \<open>
  C10.  A row that passes the filter and whose activation time is missing (the cell is
  \<^verbatim>\<open>NaN\<close> or an empty string) gives no alarm and no log message, and the loop goes
  on unchanged.  When a row gives an alarm, its activation time was not missing, and its
  two times are what \<^verbatim>\<open>_parse_timestamp\<close> returns for the strings present: the
  result of the millisecond format if it matches, else of the second format if that
  matches, and the wall clock only when neither does.
\<close>

theorem missing_activation_timestamp_dropped:
  "(missing_comes_row row \<longrightarrow>
      parse_alarm_row strptime now row = (None, [])
    \<and> parse_rows strptime clock i [row] self = self)
   \<and> (parse_alarm_row_try strptime now row = Inr (Some a) \<longrightarrow>
        \<not> comes_missing row
      \<and> comes_timestamp a = parse_timestamp strptime (fst now) (py_str (row ! 11))
      \<and> goes_timestamp a =
          (if py_str (row ! 19) \<noteq> ''nan''
           then Some (parse_timestamp strptime (snd now) (py_str (row ! 19))) else None))
   \<and> (strptime s ''%m/%d/%Y %H:%M:%S.%f'' = Some t \<longrightarrow> parse_timestamp strptime wall s = t)
   \<and> (strptime s ''%m/%d/%Y %H:%M:%S.%f'' = None \<and> strptime s ''%m/%d/%Y %H:%M:%S'' = Some t \<longrightarrow>
        parse_timestamp strptime wall s = t)
   \<and> (strptime s ''%m/%d/%Y %H:%M:%S.%f'' = None \<and> strptime s ''%m/%d/%Y %H:%M:%S'' = None \<longrightarrow>
        parse_timestamp strptime wall s = wall)"
proof -
  have first: "parse_alarm_row strptime now row = (None, [])
      \<and> parse_rows strptime clock i [row] self = self" if "missing_comes_row row"
    using parse_alarm_row_missing [OF that] by simp
  have second: "\<not> comes_missing row
      \<and> comes_timestamp a = parse_timestamp strptime (fst now) (py_str (row ! 11))
      \<and> goes_timestamp a =
          (if py_str (row ! 19) \<noteq> ''nan''
           then Some (parse_timestamp strptime (snd now) (py_str (row ! 19))) else None)"
    if "parse_alarm_row_try strptime now row = Inr (Some a)"
    using that
    by (auto simp add: parse_alarm_row_try_def bind_err_def Let_def comes_missing_def iloc_def
        mk_KronesAlarm_def post_init_def split: if_splits sum.splits option.splits)
  from first second show ?thesis by (simp add: parse_timestamp_def)
qed

theorem missing_activation_timestamp_dropped_witness:
  "missing_comes_row (example_row CNaN CNaN (CStr ''4711''))
   \<and> parse_alarm_row example_strptime (7, 8) (example_row CNaN CNaN (CStr ''4711'')) = (None, [])
   \<and> missing_comes_row (example_row (CStr []) CNaN (CStr ''4711''))
   \<and> parse_alarm_row example_strptime (7, 8) (example_row (CStr []) CNaN (CStr ''4711'')) = (None, [])
   \<and> map comes_timestamp
        (alarms (parse_rows example_strptime (\<lambda>i. (7, 8)) 0
           [example_row (CStr ''yesterday'') CNaN (CStr ''4711''),
            example_row CNaN CNaN (CStr ''4711''),
            example_row (CStr ''09/15/2025 10:00:02'') CNaN (CStr ''4711'')] new_parser)) =
       [7, 2000000]
   \<and> parse_timestamp example_strptime 7 ''09/15/2025 10:00:00.250'' = 250000
   \<and> parse_timestamp example_strptime 7 ''09/15/2025 10:00:02'' = 2000000
   \<and> parse_timestamp example_strptime 7 ''yesterday'' = 7"
proof -
  let ?nan = "example_row CNaN CNaN (CStr ''4711'')"
  let ?empty = "example_row (CStr []) CNaN (CStr ''4711'')"
  have m1: "missing_comes_row ?nan" by code_simp
  have m2: "missing_comes_row ?empty" by code_simp
  have p1: "example_strptime ''09/15/2025 10:00:00.250'' ''%m/%d/%Y %H:%M:%S.%f'' = Some 250000"
    by code_simp
  have p2: "example_strptime ''09/15/2025 10:00:02'' ''%m/%d/%Y %H:%M:%S.%f'' = None
      \<and> example_strptime ''09/15/2025 10:00:02'' ''%m/%d/%Y %H:%M:%S'' = Some 2000000"
    by code_simp
  have p3: "example_strptime ''yesterday'' ''%m/%d/%Y %H:%M:%S.%f'' = None
      \<and> example_strptime ''yesterday'' ''%m/%d/%Y %H:%M:%S'' = None"
    by code_simp
  have rows: "map comes_timestamp
        (alarms (parse_rows example_strptime (\<lambda>i. (7, 8)) 0
           [example_row (CStr ''yesterday'') CNaN (CStr ''4711''), ?nan,
            example_row (CStr ''09/15/2025 10:00:02'') CNaN (CStr ''4711'')] new_parser)) =
       [7, 2000000]"
    by code_simp
  note inst = missing_activation_timestamp_dropped [where strptime = example_strptime and wall = 7]
  from inst [where row = ?nan and now = "(7, 8)"] m1
  have r1: "parse_alarm_row example_strptime (7, 8) ?nan = (None, [])" by blast
  from inst [where row = ?empty and now = "(7, 8)"] m2
  have r2: "parse_alarm_row example_strptime (7, 8) ?empty = (None, [])" by blast
  from inst [where s = "''09/15/2025 10:00:00.250''" and t = 250000] p1
  have t1: "parse_timestamp example_strptime 7 ''09/15/2025 10:00:00.250'' = 250000" by blast
  from inst [where s = "''09/15/2025 10:00:02''" and t = 2000000] p2
  have t2: "parse_timestamp example_strptime 7 ''09/15/2025 10:00:02'' = 2000000" by blast
  from inst [where s = "''yesterday''"] p3
  have t3: "parse_timestamp example_strptime 7 ''yesterday'' = 7" by blast
  from m1 m2 r1 r2 rows t1 t2 t3 show ?thesis by simp
qed

subsection \<open>The duration of an alarm\<close>

text \<open>
  C7.  The duration is absent when the clear timestamp is absent.  When it is present,
  \<^verbatim>\<open>__post_init__\<close> multiplies the float \<^verbatim>\<open>total_seconds()\<close> by 1000 and truncates
  the product: for an alarm that comes at 10:00:00.250 and goes at 10:00:01.251, which is
  1001 milliseconds later, the duration is 1000, directly and through the parser.
\<close>

theorem duration_truncates_float_product:
  "duration_ms (mk_KronesAlarm m n t msg ref comes None) = None
   \<and> duration_ms (mk_KronesAlarm ''MMA'' 4711 ''Fault'' ''Guard door 1 open'' ''SW.1''
                    250000 (Some 1251000)) = Some 1000
   \<and> (1251000 - 250000 :: int) = 1001 * 1000
   \<and> map duration_ms
        (alarms (snd (load_alarm_data example_strptime (\<lambda>i. (0, 0))
           [example_row (CStr ''09/15/2025 10:00:00.250'') (CStr ''09/15/2025 10:00:01.251'')
              (CStr ''4711'')] new_parser))) = [Some 1000]"
proof -
  have 1: "duration_ms (mk_KronesAlarm m n t msg ref comes None) = None"
    by (simp add: mk_KronesAlarm_def post_init_def)
  have 2: "duration_ms (mk_KronesAlarm ''MMA'' 4711 ''Fault'' ''Guard door 1 open'' ''SW.1''
                    250000 (Some 1251000)) = Some 1000"
    by code_simp
  have 3: "map duration_ms
        (alarms (snd (load_alarm_data example_strptime (\<lambda>i. (0, 0))
           [example_row (CStr ''09/15/2025 10:00:00.250'') (CStr ''09/15/2025 10:00:01.251'')
              (CStr ''4711'')] new_parser))) = [Some 1000]"
    by code_simp
  from 1 2 3 show ?thesis by simp
qed

section \<open>The simulation engine\<close>

subsection \<open>Fields that node writes and sleeps leave alone\<close>

lemma fields_write_value [simp]:
  "current_alarms (write_value t v s) = current_alarms s"
  "parser_alarms (write_value t v s) = parser_alarms s"
  "alarm_sequences (write_value t v s) = alarm_sequences s"
  "production_rate (write_value t v s) = production_rate s"
  by (simp_all add: write_value_def)

lemma fields_sleep [simp]:
  "current_alarms (sleep d s) = current_alarms s"
  "parser_alarms (sleep d s) = parser_alarms s"
  "alarm_sequences (sleep d s) = alarm_sequences s"
  "production_rate (sleep d s) = production_rate s"
  by (simp_all add: sleep_def)

lemma fields_write_values [simp]:
  "current_alarms (write_values ws s) = current_alarms s"
  "parser_alarms (write_values ws s) = parser_alarms s"
  "alarm_sequences (write_values ws s) = alarm_sequences s"
  by (induction ws arbitrary: s) (simp_all add: write_values_def split_beta)

lemma fields_fold_perform_all:
  "current_alarms (fold perform es s) = current_alarms s
   \<and> parser_alarms (fold perform es s) = parser_alarms s
   \<and> alarm_sequences (fold perform es s) = alarm_sequences s"
proof (induction es arbitrary: s)
  case Nil
  then show ?case by simp
next
  case (Cons e es)
  then show ?case by (cases e) simp_all
qed

lemma fields_fold_perform [simp]:
  "current_alarms (fold perform es s) = current_alarms s"
  "parser_alarms (fold perform es s) = parser_alarms s"
  "alarm_sequences (fold perform es s) = alarm_sequences s"
  by (simp_all add: fields_fold_perform_all)

lemma fields_activate_alarm [simp]:
  "current_alarms (activate_alarm deviation alarm s) = current_alarms s @ [alarm]"
  "parser_alarms (activate_alarm deviation alarm s) = parser_alarms s"
  "alarm_sequences (activate_alarm deviation alarm s) = alarm_sequences s"
  by (simp_all add: activate_alarm_def)

lemma current_alarms_clear_random_alarm:
  "current_alarms (clear_random_alarm i s) =
     (if current_alarms s = [] then []
      else remove1 (random_choice i (current_alarms s)) (current_alarms s))"
  by (simp add: clear_random_alarm_def Let_def)

lemma fields_clear_random_alarm [simp]:
  "parser_alarms (clear_random_alarm i s) = parser_alarms s"
  "alarm_sequences (clear_random_alarm i s) = alarm_sequences s"
  by (simp_all add: clear_random_alarm_def Let_def)

lemma random_choice_member: "xs \<noteq> [] \<Longrightarrow> random_choice i xs \<in> set xs"
  by (simp add: random_choice_def)

lemma fields_simulate_production_pass [simp]:
  "current_alarms (simulate_production_pass s) = current_alarms s"
  "parser_alarms (simulate_production_pass s) = parser_alarms s"
  "alarm_sequences (simulate_production_pass s) = alarm_sequences s"
  by (simp_all add: simulate_production_pass_def Let_def)

lemma fields_update_alarm_counters [simp]:
  "current_alarms (update_alarm_counters s) = current_alarms s"
  "parser_alarms (update_alarm_counters s) = parser_alarms s"
  "alarm_sequences (update_alarm_counters s) = alarm_sequences s"
  by (simp_all add: update_alarm_counters_def Let_def)

subsection \<open>Activation and clearing\<close>

lemma nominal_values:
  "map_of address_space (MMA, ''Fault_Routine_Active'') = Some (VBool False)"
  "map_of address_space (MMA, ''Manual_Override'') = Some (VBool False)"
  "map_of address_space (MMA, ''Air_Dehumidifier'') = Some (VBool True)"
  "map_of address_space (MMA, ''Guard_Door_1'') = Some (VBool True)"
  "map_of address_space (MMA, ''Level_LT100'') = Some (VFloat 50)"
  "map_of address_space (MMA, ''Container_Transfer'') = Some (VBool True)"
  "map_of address_space (MMA, ''Cap_Feed_Unit'') = Some (VBool True)"
  "map_of address_space (BAS, ''BCM_Server_Status'') = Some (VStr ''ONLINE'')"
  "map_of address_space (BAS, ''Communication_Health'') = Some (VInt 100)"
  "map_of address_space (SDC, ''Power_Supply_Status'') = Some (VStr ''OK'')"
  "map_of address_space (SDC, ''Servo_Drive_Status'') = Some (VStr ''OK'')"
  "map_of address_space (SDC, ''Service_Brake_Torque'') = Some (VFloat 100)"
  "map_of address_space (SBC, ''Position_Deviation'') = Some (VFloat 0)"
  "map_of address_space (SBC, ''Stretching_Drive_12'') = Some (VFloat 0)"
  "map_of address_space (SBC, ''Stretching_Drive_13'') = Some (VFloat 0)"
  "map_of address_space (SBC, ''Stretching_Drive_14'') = Some (VFloat 0)"
  by (simp_all add: address_space_def)

lemma clear_writes_nominal:
  "(t, v) \<in> set (clear_writes alarm) \<Longrightarrow> map_of address_space t = Some v"
  by (auto simp add: clear_writes_def Let_def nominal_values split: if_splits)

lemma activate_nodes_subset:
  "set (map fst (activate_writes deviation alarm)) \<subseteq> set (map fst (clear_writes alarm))"
proof -
  consider "module alarm = ''MMA''" | "module alarm = ''BAS''" | "module alarm = ''SDC''"
    | "module alarm = ''SBC''"
    | "module alarm \<noteq> ''MMA''" "module alarm \<noteq> ''BAS''" "module alarm \<noteq> ''SDC''"
      "module alarm \<noteq> ''SBC''"
    by blast
  then show ?thesis
    by cases (auto simp add: activate_writes_def clear_writes_def Let_def split: if_splits)
qed

lemma activate_nodes_MMA:
  "module alarm = ''MMA'' \<Longrightarrow>
     map fst (activate_writes deviation alarm) = map fst (clear_writes alarm)"
  by (auto simp add: activate_writes_def clear_writes_def Let_def)

lemma node_values_write_values:
  "node_values (write_values ws s) t =
     (case map_of (rev ws) t of None \<Rightarrow> node_values s t | Some v \<Rightarrow> Some v)"
proof (induction ws arbitrary: s)
  case Nil
  then show ?case by (simp add: write_values_def)
next
  case (Cons w ws)
  obtain t' v' where w: "w = (t', v')" by (cases w)
  have "write_values (w # ws) s = write_values ws (write_value t' v' s)"
    by (simp add: write_values_def w)
  then show ?case
    by (simp add: Cons.IH w write_value_def map_add_def [symmetric] split: option.splits)
       (auto simp add: map_add_def split: option.splits)
qed

lemma node_values_after_clear:
  "node_values (write_values (clear_writes alarm) s) t =
     (if t \<in> set (map fst (clear_writes alarm)) then map_of address_space t
      else node_values s t)"
proof (cases "map_of (rev (clear_writes alarm)) t")
  case None
  then have "t \<notin> set (map fst (clear_writes alarm))"
    by (simp add: map_of_eq_None_iff)
  with None show ?thesis by (simp add: node_values_write_values)
next
  case (Some v)
  then have in_set: "(t, v) \<in> set (clear_writes alarm)"
    using map_of_SomeD by fastforce
  then have "map_of address_space t = Some v" by (rule clear_writes_nominal)
  moreover from in_set have "t \<in> set (map fst (clear_writes alarm))" by force
  ultimately show ?thesis using Some by (simp add: node_values_write_values)
qed

lemma write_values_current_alarms:
  "write_values ws (s\<lparr>current_alarms := x\<rparr>) = (write_values ws s)\<lparr>current_alarms := x\<rparr>"
proof (induction ws arbitrary: s)
  case Nil
  then show ?case by (simp add: write_values_def)
next
  case (Cons w ws)
  have swap: "write_value (fst w) (snd w) (s\<lparr>current_alarms := x\<rparr>) =
      (write_value (fst w) (snd w) s)\<lparr>current_alarms := x\<rparr>"
    by (simp add: write_value_def)
  have "write_values (w # ws) (s\<lparr>current_alarms := x\<rparr>) =
      write_values ws (write_value (fst w) (snd w) (s\<lparr>current_alarms := x\<rparr>))"
    by (simp add: write_values_def split_beta)
  also have "\<dots> = (write_values ws (write_value (fst w) (snd w) s))\<lparr>current_alarms := x\<rparr>"
    by (simp only: swap Cons.IH)
  also have "write_values ws (write_value (fst w) (snd w) s) = write_values (w # ws) s"
    by (simp add: write_values_def split_beta)
  finally show ?case .
qed

lemma node_values_clear_activate_writes:
  "node_values (write_values (clear_writes alarm)
                  (write_values (activate_writes deviation alarm) self)) t =
     (if t \<in> set (map fst (clear_writes alarm)) then map_of address_space t
      else node_values self t)"
proof -
  have "node_values (write_values (activate_writes deviation alarm) self) t = node_values self t"
    if "t \<notin> set (map fst (clear_writes alarm))"
  proof -
    from that activate_nodes_subset [of deviation alarm]
    have "t \<notin> set (map fst (activate_writes deviation alarm))" by blast
    then have "map_of (rev (activate_writes deviation alarm)) t = None"
      by (simp add: map_of_eq_None_iff)
    then show ?thesis by (simp add: node_values_write_values)
  qed
  then show ?thesis by (simp add: node_values_after_clear)
qed

lemma clear_after_activate:
  assumes "current_alarms self = []"
  shows "clear_random_alarm i (activate_alarm deviation alarm self) =
     write_values (clear_writes alarm) (write_values (activate_writes deviation alarm) self)"
proof -
  have pick: "random_choice i [alarm] = alarm" by (simp add: random_choice_def)
  have "write_values (clear_writes alarm) (write_values (activate_writes deviation alarm) self)
      = (write_values (clear_writes alarm) (write_values (activate_writes deviation alarm) self))
          \<lparr>current_alarms := []\<rparr>"
    using assms by simp
  then show ?thesis
    using assms
    by (simp add: clear_random_alarm_def activate_alarm_def Let_def pick
        write_values_current_alarms)
qed

text \<open>
  C3, as amended.  Clearing an alarm writes its nominal value (the initial value in the
  address space) to every node that activating the same alarm has written, so these nodes
  are restored.  For an MMA alarm the nodes cleared are exactly the nodes activation has
  written, by the same rule table.  For a BAS, SDC or SBC alarm clearing writes all the
  alarm nodes of the module, whatever the message says; these include the nodes of the
  activation.  After an activation and the clearing of the same alarm, each node in the
  set cleared holds its nominal value and every other node its value from before; so it
  is when the engine, with no alarm active, activates an alarm and then clears it.  An
  alarm of any other module writes no node, neither when activated nor when cleared.
\<close>

theorem clearing_resets_module_nodes:
  "set (map fst (activate_writes deviation alarm)) \<subseteq> set (map fst (clear_writes alarm))
   \<and> (\<forall>w \<in> set (clear_writes alarm). map_of address_space (fst w) = Some (snd w))
   \<and> (module alarm = ''MMA'' \<longrightarrow>
        map fst (activate_writes deviation alarm) = map fst (clear_writes alarm))
   \<and> (module alarm = ''BAS'' \<longrightarrow>
        map fst (clear_writes alarm) =
          [(BAS, ''BCM_Server_Status''), (BAS, ''Communication_Health'')])
   \<and> (module alarm = ''SDC'' \<longrightarrow>
        map fst (clear_writes alarm) =
          [(SDC, ''Power_Supply_Status''), (SDC, ''Servo_Drive_Status''),
           (SDC, ''Service_Brake_Torque'')])
   \<and> (module alarm = ''SBC'' \<longrightarrow>
        map fst (clear_writes alarm) =
          [(SBC, ''Position_Deviation''), (SBC, ''Stretching_Drive_12''),
           (SBC, ''Stretching_Drive_13''), (SBC, ''Stretching_Drive_14'')])
   \<and> (module alarm \<notin> {''MMA'', ''BAS'', ''SDC'', ''SBC''} \<longrightarrow>
        activate_writes deviation alarm = [] \<and> clear_writes alarm = [])
   \<and> node_values (write_values (clear_writes alarm)
                     (write_values (activate_writes deviation alarm) self)) t =
       (if t \<in> set (map fst (clear_writes alarm)) then map_of address_space t
        else node_values self t)
   \<and> (current_alarms self = [] \<longrightarrow>
        node_values (clear_random_alarm i (activate_alarm deviation alarm self)) t =
          (if t \<in> set (map fst (clear_writes alarm)) then map_of address_space t
           else node_values self t)
      \<and> current_alarms (clear_random_alarm i (activate_alarm deviation alarm self)) = [])"
proof -
  have engine: "node_values (clear_random_alarm i (activate_alarm deviation alarm self)) t =
          (if t \<in> set (map fst (clear_writes alarm)) then map_of address_space t
           else node_values self t)
      \<and> current_alarms (clear_random_alarm i (activate_alarm deviation alarm self)) = []"
    if "current_alarms self = []"
    using that
    by (simp add: clear_after_activate [OF that] node_values_clear_activate_writes)
  have groups: "(module alarm = ''BAS'' \<longrightarrow>
        map fst (clear_writes alarm) =
          [(BAS, ''BCM_Server_Status''), (BAS, ''Communication_Health'')])
   \<and> (module alarm = ''SDC'' \<longrightarrow>
        map fst (clear_writes alarm) =
          [(SDC, ''Power_Supply_Status''), (SDC, ''Servo_Drive_Status''),
           (SDC, ''Service_Brake_Torque'')])
   \<and> (module alarm = ''SBC'' \<longrightarrow>
        map fst (clear_writes alarm) =
          [(SBC, ''Position_Deviation''), (SBC, ''Stretching_Drive_12''),
           (SBC, ''Stretching_Drive_13''), (SBC, ''Stretching_Drive_14'')])
   \<and> (module alarm \<notin> {''MMA'', ''BAS'', ''SDC'', ''SBC''} \<longrightarrow>
        activate_writes deviation alarm = [] \<and> clear_writes alarm = [])"
    by (simp add: clear_writes_def activate_writes_def Let_def)
  have sub: "set (map fst (activate_writes deviation alarm)) \<subseteq> set (map fst (clear_writes alarm))"
    by (rule activate_nodes_subset)
  have nominal: "\<forall>w \<in> set (clear_writes alarm). map_of address_space (fst w) = Some (snd w)"
    using clear_writes_nominal by auto
  have untouched: "node_values (write_values (activate_writes deviation alarm) self) t =
      node_values self t" if "t \<notin> set (map fst (clear_writes alarm))"
  proof -
    from that sub have "t \<notin> set (map fst (activate_writes deviation alarm))" by blast
    then have "map_of (rev (activate_writes deviation alarm)) t = None"
      by (simp add: map_of_eq_None_iff)
    then show ?thesis by (simp add: node_values_write_values)
  qed
  have both: "node_values (write_values (clear_writes alarm)
                     (write_values (activate_writes deviation alarm) self)) t =
       (if t \<in> set (map fst (clear_writes alarm)) then map_of address_space t
        else node_values self t)"
    using untouched by (simp add: node_values_after_clear)
  from sub nominal activate_nodes_MMA [of alarm deviation] groups both engine show ?thesis
    by blast
qed

theorem clearing_resets_module_nodes_witness:
  "module (example_guard_door_alarm) = ''MMA''
   \<and> map fst (activate_writes 10 example_guard_door_alarm) = [(MMA, ''Guard_Door_1'')]
   \<and> map fst (clear_writes example_guard_door_alarm) = [(MMA, ''Guard_Door_1'')]
   \<and> node_values (activate_alarm 10 example_guard_door_alarm (started_server example_records))
        (MMA, ''Guard_Door_1'') = Some (VBool False)
   \<and> node_values (write_values (clear_writes example_guard_door_alarm)
                     (write_values (activate_writes 10 example_guard_door_alarm)
                        (started_server example_records))) (MMA, ''Guard_Door_1'') =
       Some (VBool True)
   \<and> current_alarms (started_server example_records) = []
   \<and> node_values (clear_random_alarm 0 (activate_alarm 10 example_guard_door_alarm
                        (started_server example_records))) (MMA, ''Guard_Door_1'') =
       Some (VBool True)
   \<and> map fst (clear_writes example_bcm_alarm) =
       [(BAS, ''BCM_Server_Status''), (BAS, ''Communication_Health'')]
   \<and> map fst (clear_writes example_power_supply_alarm) =
       [(SDC, ''Power_Supply_Status''), (SDC, ''Servo_Drive_Status''),
        (SDC, ''Service_Brake_Torque'')]
   \<and> map fst (activate_writes 10 example_stretching_alarm) =
       [(SBC, ''Position_Deviation''), (SBC, ''Stretching_Drive_12'')]
   \<and> map fst (clear_writes example_stretching_alarm) =
       [(SBC, ''Position_Deviation''), (SBC, ''Stretching_Drive_12''),
        (SBC, ''Stretching_Drive_13''), (SBC, ''Stretching_Drive_14'')]
   \<and> activate_writes 10 example_other_alarm = []
   \<and> clear_writes example_other_alarm = []"
proof -
  have bas: "module example_bcm_alarm = ''BAS''" by code_simp
  have sdc: "module example_power_supply_alarm = ''SDC''" by code_simp
  have sbc: "module example_stretching_alarm = ''SBC''" by code_simp
  have other: "module example_other_alarm \<notin> {''MMA'', ''BAS'', ''SDC'', ''SBC''}" by code_simp
  have sa: "map fst (activate_writes 10 example_stretching_alarm) =
       [(SBC, ''Position_Deviation''), (SBC, ''Stretching_Drive_12'')]"
    by code_simp
  from clearing_resets_module_nodes [of 10 example_bcm_alarm] bas
  have g1: "map fst (clear_writes example_bcm_alarm) =
       [(BAS, ''BCM_Server_Status''), (BAS, ''Communication_Health'')]"
    by blast
  from clearing_resets_module_nodes [of 10 example_power_supply_alarm] sdc
  have g2: "map fst (clear_writes example_power_supply_alarm) =
       [(SDC, ''Power_Supply_Status''), (SDC, ''Servo_Drive_Status''),
        (SDC, ''Service_Brake_Torque'')]"
    by blast
  from clearing_resets_module_nodes [of 10 example_stretching_alarm] sbc
  have g3: "map fst (clear_writes example_stretching_alarm) =
       [(SBC, ''Position_Deviation''), (SBC, ''Stretching_Drive_12''),
        (SBC, ''Stretching_Drive_13''), (SBC, ''Stretching_Drive_14'')]"
    by blast
  from clearing_resets_module_nodes [of 10 example_other_alarm] other
  have g4: "activate_writes 10 example_other_alarm = [] \<and> clear_writes example_other_alarm = []"
    by blast
  have m: "module (example_guard_door_alarm) = ''MMA''" by code_simp
  have a: "map fst (activate_writes 10 example_guard_door_alarm) = [(MMA, ''Guard_Door_1'')]"
    by code_simp
  have v: "node_values (activate_alarm 10 example_guard_door_alarm (started_server example_records))
        (MMA, ''Guard_Door_1'') = Some (VBool False)"
    by code_simp
  note inst = clearing_resets_module_nodes [of 10 example_guard_door_alarm
      "started_server example_records" "(MMA, ''Guard_Door_1'')" 0]
  have idle: "current_alarms (started_server example_records) = []"
    by (simp add: started_server_def)
  from inst m a have c: "map fst (clear_writes example_guard_door_alarm) = [(MMA, ''Guard_Door_1'')]"
    by simp
  from inst c have "node_values (write_values (clear_writes example_guard_door_alarm)
                     (write_values (activate_writes 10 example_guard_door_alarm)
                        (started_server example_records))) (MMA, ''Guard_Door_1'') =
       map_of address_space (MMA, ''Guard_Door_1'')"
    by simp
  then have r: "node_values (write_values (clear_writes example_guard_door_alarm)
                     (write_values (activate_writes 10 example_guard_door_alarm)
                        (started_server example_records))) (MMA, ''Guard_Door_1'') =
       Some (VBool True)"
    by (simp add: nominal_values)
  from inst idle c have "node_values (clear_random_alarm 0 (activate_alarm 10 example_guard_door_alarm
                        (started_server example_records))) (MMA, ''Guard_Door_1'') =
       map_of address_space (MMA, ''Guard_Door_1'')"
    by simp
  then have e: "node_values (clear_random_alarm 0 (activate_alarm 10 example_guard_door_alarm
                        (started_server example_records))) (MMA, ''Guard_Door_1'') =
       Some (VBool True)"
    by (simp add: nominal_values)
  from m a c v r idle e g1 g2 sa g3 g4 show ?thesis by blast
qed

text \<open>
  The claim as stated fails for an SDC alarm about the power supply: activating it writes
  one node, clearing it writes three, two of which the activation has not touched.
\<close>

theorem clearing_touches_further_nodes:
  "map fst (activate_writes 10 example_power_supply_alarm) = [(SDC, ''Power_Supply_Status'')]
   \<and> map fst (clear_writes example_power_supply_alarm) =
       [(SDC, ''Power_Supply_Status''), (SDC, ''Servo_Drive_Status''),
        (SDC, ''Service_Brake_Torque'')]"
  by code_simp

subsection \<open>The list of active alarms\<close>

lemma from_pool_iff:
  "from_pool s \<longleftrightarrow>
     set (current_alarms s) \<subseteq> set (parser_alarms s)
   \<and> (\<forall>q \<in> set (alarm_sequences s). set q \<subseteq> set (parser_alarms s))"
  by (auto simp add: from_pool_def list_all_iff)

lemma from_pool_activate:
  "from_pool s \<Longrightarrow> alarm \<in> set (parser_alarms s) \<Longrightarrow> from_pool (activate_alarm deviation alarm s)"
  by (simp add: from_pool_iff)

lemma from_pool_sleep: "from_pool s \<Longrightarrow> from_pool (sleep d s)"
  by (simp add: from_pool_iff)

lemma from_pool_clear: "from_pool s \<Longrightarrow> from_pool (clear_random_alarm i s)"
  by (auto simp add: from_pool_iff current_alarms_clear_random_alarm dest: notin_set_remove1)

lemma from_pool_fold_activate:
  assumes "from_pool s" and "set xs \<subseteq> set (parser_alarms s)"
  shows "from_pool (fold (\<lambda>(k, alarm) st.
          if int k < int n - 1
          then sleep d (activate_alarm (deviations k) alarm st)
          else activate_alarm (deviations k) alarm st) (enumerate j xs) s)"
  using assms
proof (induction xs arbitrary: s j)
  case Nil
  then show ?case by simp
next
  case (Cons x xs)
  let ?s = "activate_alarm (deviations j) x s"
  from Cons.prems have 1: "from_pool ?s" by (simp add: from_pool_activate)
  then have 2: "from_pool (sleep d ?s)" by (rule from_pool_sleep)
  from Cons.prems have 3: "set xs \<subseteq> set (parser_alarms ?s)" "set xs \<subseteq> set (parser_alarms (sleep d ?s))"
    by simp_all
  show ?case
    using Cons.IH [OF 1 3(1), of "Suc j"] Cons.IH [OF 2 3(2), of "Suc j"] by simp
qed

lemma parser_alarms_fold_activate:
  "parser_alarms (fold (\<lambda>(k, alarm) st.
          if int k < int n - 1
          then sleep d (activate_alarm (deviations k) alarm st)
          else activate_alarm (deviations k) alarm st) kxs s) = parser_alarms s"
  by (induction kxs arbitrary: s) (simp_all add: split_beta)

lemma from_pool_trigger_alarm_sequence:
  assumes "from_pool s"
  shows "from_pool (trigger_alarm_sequence i deviations s)"
proof (cases "alarm_sequences s = []")
  case True
  with assms show ?thesis by (simp add: trigger_alarm_sequence_def)
next
  case False
  let ?q = "random_choice i (alarm_sequences s)"
  from False have "?q \<in> set (alarm_sequences s)" by (rule random_choice_member)
  with assms have "set ?q \<subseteq> set (parser_alarms s)" by (simp add: from_pool_iff)
  moreover have "set (take 5 ?q) \<subseteq> set ?q" by (rule set_take_subset)
  ultimately have "set (take 5 ?q) \<subseteq> set (parser_alarms s)" by blast
  from from_pool_fold_activate [OF assms this] False
  show ?thesis by (simp add: trigger_alarm_sequence_def Let_def)
qed

lemma from_pool_trigger_random_alarm:
  "from_pool s \<Longrightarrow> from_pool (trigger_random_alarm i deviation s)"
  by (simp add: trigger_random_alarm_def from_pool_activate random_choice_member)

lemma from_pool_unchanged:
  assumes "from_pool s" and "current_alarms s' = current_alarms s"
    and "parser_alarms s' = parser_alarms s" and "alarm_sequences s' = alarm_sequences s"
  shows "from_pool s'"
  using assms by (simp add: from_pool_iff)

text \<open>The pass of the alarm task, step by step.\<close>

lemma simulate_real_alarms_pass_steps:
  fixes inp task
  defines "task1 \<equiv>
            (if 30 < fsub (fst inp) (last_scenario_time task)
             then task\<lparr>server := (if \<not> scenario_toggle task
                                    then trigger_scenario_a (server task)
                                    else trigger_scenario_b (server task)),
                        scenario_toggle := \<not> scenario_toggle task,
                        last_scenario_time := fst inp\<rparr>
             else task)"
  defines "s1 \<equiv> trigger_alarm_sequence (sequence_choice (snd inp))
      (sequence_deviations (snd inp)) (server task1)"
  defines "s2 \<equiv> (if current_alarms s1 \<noteq> []
                  then clear_random_alarm (clear_choice (snd inp)) s1 else s1)"
  defines "s3 \<equiv> trigger_random_alarm (alarm_choice (snd inp)) (alarm_deviation (snd inp)) s2"
  shows "server (simulate_real_alarms_pass inp task) =
           sleep (float_lit (5 / 100)) (update_alarm_counters s3)"
  by (simp add: simulate_real_alarms_pass_def Let_def task1_def s1_def s2_def s3_def)

lemma from_pool_pass:
  assumes "from_pool (server task)"
  shows "from_pool (server (simulate_real_alarms_pass inp task))"
proof -
  define task1 where "task1 =
            (if 30 < fsub (fst inp) (last_scenario_time task)
             then task\<lparr>server := (if \<not> scenario_toggle task
                                    then trigger_scenario_a (server task)
                                    else trigger_scenario_b (server task)),
                        scenario_toggle := \<not> scenario_toggle task,
                        last_scenario_time := fst inp\<rparr>
             else task)"
  define s1 where "s1 = trigger_alarm_sequence (sequence_choice (snd inp))
      (sequence_deviations (snd inp)) (server task1)"
  define s2 where "s2 = (if current_alarms s1 \<noteq> []
                  then clear_random_alarm (clear_choice (snd inp)) s1 else s1)"
  define s3 where "s3 = trigger_random_alarm (alarm_choice (snd inp)) (alarm_deviation (snd inp)) s2"
  have res: "server (simulate_real_alarms_pass inp task) =
      sleep (float_lit (5 / 100)) (update_alarm_counters s3)"
    unfolding s3_def s2_def s1_def task1_def by (rule simulate_real_alarms_pass_steps)
  have "from_pool (server task1)"
    using assms
    by (auto simp add: task1_def trigger_scenario_a_def trigger_scenario_b_def
        intro: from_pool_unchanged)
  then have "from_pool s1" unfolding s1_def by (rule from_pool_trigger_alarm_sequence)
  then have "from_pool s2" by (simp add: s2_def from_pool_clear)
  then have "from_pool s3" unfolding s3_def by (rule from_pool_trigger_random_alarm)
  then have "from_pool (update_alarm_counters s3)" by (rule from_pool_unchanged) simp_all
  then have "from_pool (sleep (float_lit (5 / 100)) (update_alarm_counters s3))"
    by (rule from_pool_sleep)
  then show ?thesis by (simp only: res)
qed

lemma from_pool_run_pass:
  "from_pool (server task) \<Longrightarrow> from_pool (server (run_pass p task))"
  by (cases p) (auto simp add: from_pool_pass intro: from_pool_unchanged)

lemma from_pool_run_schedule:
  "from_pool (server task) \<Longrightarrow> from_pool (server (run_schedule schedule task))"
  unfolding run_schedule_def
  by (induction schedule arbitrary: task) (simp_all add: from_pool_run_pass)

lemma from_pool_started_server: "from_pool (started_server loaded)"
  using cascading_sequences_members [of _ loaded]
  by (simp add: from_pool_iff started_server_def)

lemma current_alarms_fold_activate:
  "current_alarms (fold (\<lambda>(k, alarm) st.
       if int k < n then sleep d (activate_alarm (deviations k) alarm st)
       else activate_alarm (deviations k) alarm st) (enumerate j xs) s) = current_alarms s @ xs"
  by (induction xs arbitrary: j s) simp_all

lemma current_alarms_trigger_alarm_sequence:
  "current_alarms (trigger_alarm_sequence i deviations s) =
     current_alarms s @
       (if alarm_sequences s = [] then []
        else take 5 (random_choice i (alarm_sequences s)))"
  using current_alarms_fold_activate
    [of "int (length (random_choice i (alarm_sequences s))) - 1" "float_lit (1 / 100)" deviations 0
        "take 5 (random_choice i (alarm_sequences s))" s]
  by (simp add: trigger_alarm_sequence_def Let_def)

lemma current_alarms_trigger_random_alarm:
  "current_alarms (trigger_random_alarm i deviation s) =
     current_alarms s @ (if parser_alarms s = [] then [] else [random_choice i (parser_alarms s)])"
  by (simp add: trigger_random_alarm_def)

lemma fields_trigger_alarm_sequence:
  "parser_alarms (trigger_alarm_sequence i deviations s) = parser_alarms s"
  by (simp add: trigger_alarm_sequence_def Let_def parser_alarms_fold_activate)

lemma current_alarms_pass:
  "current_alarms (server (simulate_real_alarms_pass inp task)) =
     (let s = server task;
          activated = current_alarms s @
            (if alarm_sequences s = [] then []
             else take 5 (random_choice (sequence_choice (snd inp)) (alarm_sequences s)));
          cleared = (if activated = [] then []
                     else remove1 (random_choice (clear_choice (snd inp)) activated) activated)
      in cleared @ (if parser_alarms s = [] then []
                    else [random_choice (alarm_choice (snd inp)) (parser_alarms s)]))"
  by (simp add: simulate_real_alarms_pass_steps current_alarms_trigger_random_alarm
      current_alarms_clear_random_alarm current_alarms_trigger_alarm_sequence
      fields_trigger_alarm_sequence trigger_scenario_a_def trigger_scenario_b_def Let_def)

text \<open>
  C4, as amended.  The active alarms are a list, in which a record may occur more than
  once.  Activating a record appends one occurrence of it, whether or not it is active
  already.  The clearing action removes one occurrence of the record it has drawn from the
  list, and so shortens the list by one.  The production pass, the scenarios and the
  update of the counters leave the list as it is: nothing removes a record on account of
  its recorded duration.  A pass of the alarm task appends the first five members of
  the cascading sequence it draws, removes one occurrence of the record it draws among the
  active ones, and appends the loaded record it draws.  In every state that a schedule of
  passes reaches from the started server, each active alarm is one of the loaded records.
\<close>

theorem active_alarms_list:
  "current_alarms (activate_alarm deviation alarm self) = current_alarms self @ [alarm]
   \<and> current_alarms (clear_random_alarm i self) =
       (if current_alarms self = [] then []
        else remove1 (random_choice i (current_alarms self)) (current_alarms self))
   \<and> (current_alarms self \<noteq> [] \<longrightarrow>
        random_choice i (current_alarms self) \<in> set (current_alarms self)
      \<and> length (current_alarms (clear_random_alarm i self)) + 1 = length (current_alarms self))
   \<and> current_alarms (simulate_production_pass self) = current_alarms self
   \<and> current_alarms (trigger_scenario_a self) = current_alarms self
   \<and> current_alarms (trigger_scenario_b self) = current_alarms self
   \<and> current_alarms (update_alarm_counters self) = current_alarms self
   \<and> set (current_alarms (server (run_schedule schedule
             (start_alarm_task now (started_server loaded))))) \<subseteq> set loaded
   \<and> current_alarms (trigger_alarm_sequence j deviations self) =
       current_alarms self @
         (if alarm_sequences self = [] then []
          else take 5 (random_choice j (alarm_sequences self)))
   \<and> current_alarms (trigger_random_alarm j deviation self) =
       current_alarms self @
         (if parser_alarms self = [] then [] else [random_choice j (parser_alarms self)])
   \<and> current_alarms (server (simulate_real_alarms_pass inp task)) =
       (let s = server task;
            activated = current_alarms s @
              (if alarm_sequences s = [] then []
               else take 5 (random_choice (sequence_choice (snd inp)) (alarm_sequences s)));
            cleared = (if activated = [] then []
                       else remove1 (random_choice (clear_choice (snd inp)) activated) activated)
        in cleared @ (if parser_alarms s = [] then []
                      else [random_choice (alarm_choice (snd inp)) (parser_alarms s)]))"
proof -
  note steps = current_alarms_trigger_alarm_sequence [of j deviations self]
    current_alarms_trigger_random_alarm [of j deviation self]
    current_alarms_pass [of inp task]
  have shorter: "length (current_alarms (clear_random_alarm i self)) + 1 = length (current_alarms self)"
    if "current_alarms self \<noteq> []"
    using that random_choice_member [OF that, of i]
    by (simp add: current_alarms_clear_random_alarm length_remove1)
  have "from_pool (server (start_alarm_task now (started_server loaded)))"
    by (simp add: start_alarm_task_def from_pool_started_server)
  then have "from_pool (server (run_schedule schedule (start_alarm_task now (started_server loaded))))"
    by (rule from_pool_run_schedule)
  moreover have "parser_alarms (server (run_schedule schedule task)) = parser_alarms (server task)"
    for task
    unfolding run_schedule_def
  proof (induction schedule arbitrary: task)
    case Nil
    then show ?case by simp
  next
    case (Cons p ps)
    have "parser_alarms (server (run_pass p task)) = parser_alarms (server task)"
    proof (cases p)
      case (Alarm_pass inp)
      then show ?thesis
        by (simp add: simulate_real_alarms_pass_steps trigger_random_alarm_def
            trigger_alarm_sequence_def trigger_scenario_a_def trigger_scenario_b_def
            parser_alarms_fold_activate Let_def)
    next
      case Production_pass
      then show ?thesis by simp
    qed
    with Cons.IH [of "run_pass p task"] show ?case by simp
  qed
  ultimately have "set (current_alarms (server (run_schedule schedule
             (start_alarm_task now (started_server loaded))))) \<subseteq> set loaded"
    by (simp add: from_pool_iff start_alarm_task_def started_server_def)
  with shorter have "current_alarms (activate_alarm deviation alarm self) = current_alarms self @ [alarm]
   \<and> current_alarms (clear_random_alarm i self) =
       (if current_alarms self = [] then []
        else remove1 (random_choice i (current_alarms self)) (current_alarms self))
   \<and> (current_alarms self \<noteq> [] \<longrightarrow>
        random_choice i (current_alarms self) \<in> set (current_alarms self)
      \<and> length (current_alarms (clear_random_alarm i self)) + 1 = length (current_alarms self))
   \<and> current_alarms (simulate_production_pass self) = current_alarms self
   \<and> current_alarms (trigger_scenario_a self) = current_alarms self
   \<and> current_alarms (trigger_scenario_b self) = current_alarms self
   \<and> current_alarms (update_alarm_counters self) = current_alarms self
   \<and> set (current_alarms (server (run_schedule schedule
             (start_alarm_task now (started_server loaded))))) \<subseteq> set loaded"
    by (simp add: current_alarms_clear_random_alarm random_choice_member
        trigger_scenario_a_def trigger_scenario_b_def)
  with steps show ?thesis by blast
qed

theorem active_alarms_list_witness:
  "current_alarms (started_server example_records) = []
   \<and> current_alarms (activate_alarm 10 (example_alarm 0)
        (activate_alarm 10 (example_alarm 0) (started_server example_records))) =
       [example_alarm 0, example_alarm 0]
   \<and> current_alarms (clear_random_alarm 1 (activate_alarm 10 (example_alarm 0)
        (activate_alarm 10 (example_alarm 0) (started_server example_records)))) =
       [example_alarm 0]
   \<and> set (current_alarms (server (run_schedule [Alarm_pass (1, example_draws), Production_pass]
             (start_alarm_task 0 (started_server example_records))))) \<subseteq> set example_records"
proof -
  let ?s0 = "started_server example_records"
  let ?s1 = "activate_alarm 10 (example_alarm 0) ?s0"
  let ?s2 = "activate_alarm 10 (example_alarm 0) ?s1"
  have 0: "current_alarms ?s0 = []" by (simp add: started_server_def)
  from active_alarms_list [of 10 "example_alarm 0" ?s0] 0
  have 1: "current_alarms ?s1 = [example_alarm 0]" by simp
  from active_alarms_list [of 10 "example_alarm 0" ?s1] 1
  have 2: "current_alarms ?s2 = [example_alarm 0, example_alarm 0]" by simp
  from active_alarms_list [of 10 "example_alarm 0" ?s2 1] 2
  have 3: "current_alarms (clear_random_alarm 1 ?s2) = [example_alarm 0]"
    by (simp add: random_choice_def)
  from active_alarms_list [where schedule = "[Alarm_pass (1, example_draws), Production_pass]"
      and now = 0 and loaded = example_records]
  have 4: "set (current_alarms (server (run_schedule [Alarm_pass (1, example_draws), Production_pass]
             (start_alarm_task 0 (started_server example_records))))) \<subseteq> set example_records"
    by blast
  from 0 2 3 4 show ?thesis by simp
qed

text \<open>
  The claim as stated fails after one pass of the alarm task over the example records:
  the pass activates the three members of the cascading sequence, clears the third, and
  then activates the first once more, which is now active twice.
\<close>

theorem active_alarm_occurs_twice:
  "current_alarms (server (run_schedule [Alarm_pass (1, example_draws)]
      (start_alarm_task 0 (started_server example_records)))) =
     [example_alarm 0, example_alarm 300000000, example_alarm 0]
   \<and> \<not> distinct (current_alarms (server (run_schedule [Alarm_pass (1, example_draws)]
      (start_alarm_task 0 (started_server example_records)))))"
  by code_simp

subsection \<open>The scenarios run one at a time\<close>

lemma no_scenario_overlap_append:
  "no_scenario_overlap pending xs \<Longrightarrow> no_scenario_overlap [] ys \<Longrightarrow>
     no_scenario_overlap pending (xs @ ys)"
proof (induction xs arbitrary: pending)
  case Nil
  then show ?case by (cases pending) simp_all
next
  case (Cons e es)
  then show ?case by (cases pending) (auto split: if_splits)
qed

lemma scenario_a_sequential: "no_scenario_overlap [] scenario_a_script"
  by code_simp

lemma scenario_b_sequential: "no_scenario_overlap [] scenario_b_script"
  by code_simp

lemma quiet_sequential:
  "\<forall>e \<in> set es. \<not> scenario_event e \<Longrightarrow> no_scenario_overlap [] es"
proof (induction es)
  case Nil
  then show ?case by simp
next
  case (Cons e es)
  then have "e \<noteq> Write_value (Process, ''Line_State'') (VStr ''STOPPED'')"
    by (auto simp add: scenario_nodes_def)
  with Cons show ?case by simp
qed

lemma appends_quietlyI:
  "trace s' = trace s @ es \<Longrightarrow> \<forall>e \<in> set es. \<not> scenario_event e \<Longrightarrow> appends_quietly s s'"
  by (simp add: appends_quietly_def list_all_iff)

lemma appends_quietlyE:
  assumes "appends_quietly s s'"
  obtains es where "trace s' = trace s @ es" and "\<forall>e \<in> set es. \<not> scenario_event e"
proof -
  from assms obtain es where es: "trace s' = trace s @ es"
    by (auto simp add: appends_quietly_def prefix_def)
  with assms have "\<forall>e \<in> set es. \<not> scenario_event e"
    by (simp add: appends_quietly_def list_all_iff)
  with es that show thesis by blast
qed

lemma appends_quietly_refl: "appends_quietly s s"
  by (rule appends_quietlyI [of _ _ "[]"]) simp_all

lemma appends_quietly_trans:
  assumes "appends_quietly s s'" and "appends_quietly s' s''"
  shows "appends_quietly s s''"
proof -
  from assms(1) obtain es where 1: "trace s' = trace s @ es" "\<forall>e \<in> set es. \<not> scenario_event e"
    by (rule appends_quietlyE)
  from assms(2) obtain fs where 2: "trace s'' = trace s' @ fs" "\<forall>e \<in> set fs. \<not> scenario_event e"
    by (rule appends_quietlyE)
  show ?thesis
    by (rule appends_quietlyI [of _ _ "es @ fs"]) (use 1 2 in auto)
qed

lemma appends_quietly_sleep: "appends_quietly s (sleep d s)"
  by (rule appends_quietlyI [of _ _ "[Sleep d]"]) (simp_all add: sleep_def)

lemma appends_quietly_write_value:
  "t \<notin> set scenario_nodes \<Longrightarrow> appends_quietly s (write_value t v s)"
  by (rule appends_quietlyI [of _ _ "[Write_value t v]"]) (simp_all add: write_value_def)

lemma appends_quietly_write_values:
  "\<forall>w \<in> set ws. fst w \<notin> set scenario_nodes \<Longrightarrow> appends_quietly s (write_values ws s)"
proof (induction ws arbitrary: s)
  case Nil
  then show ?case by (simp add: write_values_def appends_quietly_refl)
next
  case (Cons w ws)
  obtain t v where w: "w = (t, v)" by (cases w)
  from Cons.prems w have "appends_quietly s (write_value t v s)"
    by (intro appends_quietly_write_value) simp
  moreover from Cons.prems
  have "appends_quietly (write_value t v s) (write_values ws (write_value t v s))"
    by (intro Cons.IH) simp
  moreover have "write_values (w # ws) s = write_values ws (write_value t v s)"
    by (simp add: write_values_def w)
  ultimately show ?case using appends_quietly_trans by metis
qed

lemma appends_quietly_current_alarms [simp]:
  "appends_quietly s (s'\<lparr>current_alarms := xs\<rparr>) = appends_quietly s s'"
  "appends_quietly (s\<lparr>current_alarms := xs\<rparr>) s' = appends_quietly s s'"
  by (simp_all add: appends_quietly_def)

lemma activate_writes_quiet:
  "w \<in> set (activate_writes deviation alarm) \<Longrightarrow> fst w \<notin> set scenario_nodes"
  by (auto simp add: activate_writes_def Let_def scenario_nodes_def split: if_splits)

lemma clear_writes_quiet:
  "w \<in> set (clear_writes alarm) \<Longrightarrow> fst w \<notin> set scenario_nodes"
  by (auto simp add: clear_writes_def Let_def scenario_nodes_def split: if_splits)

lemma appends_quietly_activate_alarm: "appends_quietly s (activate_alarm deviation alarm s)"
proof -
  have "appends_quietly (s\<lparr>current_alarms := current_alarms s @ [alarm]\<rparr>)
          (activate_alarm deviation alarm s)"
    unfolding activate_alarm_def
    by (rule appends_quietly_write_values) (simp add: activate_writes_quiet)
  then show ?thesis by simp
qed

lemma appends_quietly_clear_random_alarm: "appends_quietly s (clear_random_alarm i s)"
proof (cases "current_alarms s = []")
  case True
  then show ?thesis by (simp add: clear_random_alarm_def appends_quietly_refl)
next
  case False
  let ?alarm = "random_choice i (current_alarms s)"
  have "appends_quietly (s\<lparr>current_alarms := remove1 ?alarm (current_alarms s)\<rparr>)
          (write_values (clear_writes ?alarm)
             (s\<lparr>current_alarms := remove1 ?alarm (current_alarms s)\<rparr>))"
    by (rule appends_quietly_write_values) (simp add: clear_writes_quiet)
  with False show ?thesis by (simp add: clear_random_alarm_def Let_def)
qed

lemma appends_quietly_fold:
  assumes "\<And>x s. appends_quietly s (f x s)"
  shows "appends_quietly s (fold f xs s)"
proof (induction xs arbitrary: s)
  case Nil
  then show ?case by (simp add: appends_quietly_refl)
next
  case (Cons x xs)
  have "appends_quietly s (f x s)" by (rule assms)
  moreover have "appends_quietly (f x s) (fold f xs (f x s))" by (rule Cons.IH)
  ultimately show ?case using appends_quietly_trans by fastforce
qed

lemma appends_quietly_trigger_alarm_sequence:
  "appends_quietly s (trigger_alarm_sequence i deviations s)"
proof (cases "alarm_sequences s = []")
  case True
  then show ?thesis by (simp add: trigger_alarm_sequence_def appends_quietly_refl)
next
  case False
  have step: "appends_quietly st
      ((\<lambda>(k, alarm) st.
          if int k < int n - 1
          then sleep (float_lit (1 / 100)) (activate_alarm (deviations k) alarm st)
          else activate_alarm (deviations k) alarm st) x st)"
    for x :: "nat \<times> KronesAlarm" and st n
    using appends_quietly_trans [OF appends_quietly_activate_alarm appends_quietly_sleep]
    by (cases x) (simp add: appends_quietly_activate_alarm)
  have "appends_quietly s
      (fold (\<lambda>(k, alarm) st.
          if int k < int (length (random_choice i (alarm_sequences s))) - 1
          then sleep (float_lit (1 / 100)) (activate_alarm (deviations k) alarm st)
          else activate_alarm (deviations k) alarm st)
        (enumerate 0 (take 5 (random_choice i (alarm_sequences s)))) s)"
    by (rule appends_quietly_fold) (rule step)
  with False show ?thesis by (simp add: trigger_alarm_sequence_def Let_def)
qed

lemma appends_quietly_trigger_random_alarm:
  "appends_quietly s (trigger_random_alarm i deviation s)"
  by (simp add: trigger_random_alarm_def appends_quietly_refl appends_quietly_activate_alarm)

lemma appends_quietly_update_alarm_counters: "appends_quietly s (update_alarm_counters s)"
  unfolding update_alarm_counters_def Let_def
  by (rule appends_quietly_write_values) (simp add: scenario_nodes_def)

lemma trace_fold_perform: "trace (fold perform es s) = trace s @ es"
proof (induction es arbitrary: s)
  case Nil
  then show ?case by simp
next
  case (Cons e es)
  then show ?case by (cases e) (simp_all add: write_value_def sleep_def)
qed

lemma no_scenario_overlap_quiet_step:
  assumes "no_scenario_overlap [] (trace s)" and "appends_quietly s s'"
  shows "no_scenario_overlap [] (trace s')"
proof -
  from assms(2) obtain es where "trace s' = trace s @ es" "\<forall>e \<in> set es. \<not> scenario_event e"
    by (rule appends_quietlyE)
  with assms(1) show ?thesis
    by (simp add: no_scenario_overlap_append quiet_sequential)
qed

lemma no_scenario_overlap_scenario:
  assumes "no_scenario_overlap [] (trace s)"
  shows "no_scenario_overlap [] (trace (trigger_scenario_a s))"
    and "no_scenario_overlap [] (trace (trigger_scenario_b s))"
  using assms
  by (simp_all add: trigger_scenario_a_def trigger_scenario_b_def trace_fold_perform
      no_scenario_overlap_append scenario_a_sequential scenario_b_sequential)

lemma no_scenario_overlap_pass:
  assumes "no_scenario_overlap [] (trace (server task))"
  shows "no_scenario_overlap [] (trace (server (simulate_real_alarms_pass inp task)))"
proof -
  define task1 where "task1 =
            (if 30 < fsub (fst inp) (last_scenario_time task)
             then task\<lparr>server := (if \<not> scenario_toggle task
                                    then trigger_scenario_a (server task)
                                    else trigger_scenario_b (server task)),
                        scenario_toggle := \<not> scenario_toggle task,
                        last_scenario_time := fst inp\<rparr>
             else task)"
  define s1 where "s1 = trigger_alarm_sequence (sequence_choice (snd inp))
      (sequence_deviations (snd inp)) (server task1)"
  define s2 where "s2 = (if current_alarms s1 \<noteq> []
                  then clear_random_alarm (clear_choice (snd inp)) s1 else s1)"
  define s3 where "s3 = trigger_random_alarm (alarm_choice (snd inp)) (alarm_deviation (snd inp)) s2"
  define s4 where "s4 = update_alarm_counters s3"
  define s5 where "s5 = sleep (float_lit (5 / 100)) s4"
  have res: "server (simulate_real_alarms_pass inp task) = s5"
    unfolding s5_def s4_def s3_def s2_def s1_def task1_def
    by (rule simulate_real_alarms_pass_steps)
  have 0: "no_scenario_overlap [] (trace (server task1))"
    using assms no_scenario_overlap_scenario [OF assms] by (simp add: task1_def)
  have "appends_quietly (server task1) s1"
    unfolding s1_def by (rule appends_quietly_trigger_alarm_sequence)
  moreover have "appends_quietly s1 s2"
    by (simp add: s2_def appends_quietly_refl appends_quietly_clear_random_alarm)
  moreover have "appends_quietly s2 s3"
    unfolding s3_def by (rule appends_quietly_trigger_random_alarm)
  moreover have "appends_quietly s3 s4"
    unfolding s4_def by (rule appends_quietly_update_alarm_counters)
  moreover have "appends_quietly s4 s5"
    unfolding s5_def by (rule appends_quietly_sleep)
  ultimately have "appends_quietly (server task1) s5"
    using appends_quietly_trans by blast
  with 0 show ?thesis unfolding res by (rule no_scenario_overlap_quiet_step)
qed

lemma no_scenario_overlap_loop:
  assumes "no_scenario_overlap [] (trace (server task))"
  shows "no_scenario_overlap [] (trace (server (simulate_real_alarms inputs task)))"
  using assms unfolding simulate_real_alarms_def
  by (induction inputs arbitrary: task) (simp_all add: no_scenario_overlap_pass)

subsection \<open>Every awaited write is accepted\<close>

lemma accepted_trace_sleep: "accepted_trace s \<Longrightarrow> accepted_trace (sleep d s)"
  by (simp add: accepted_trace_def sleep_def)

lemma accepted_trace_write_value:
  "accepted_trace s \<Longrightarrow> accepted (Write_value t v) \<Longrightarrow> accepted_trace (write_value t v s)"
  by (simp add: accepted_trace_def write_value_def)

lemma accepted_trace_write_values:
  "accepted_trace s \<Longrightarrow> \<forall>w \<in> set ws. accepted (Write_value (fst w) (snd w)) \<Longrightarrow>
     accepted_trace (write_values ws s)"
proof (induction ws arbitrary: s)
  case Nil
  then show ?case by (simp add: write_values_def)
next
  case (Cons w ws)
  have "write_values (w # ws) s = write_values ws (write_value (fst w) (snd w) s)"
    by (simp add: write_values_def split_beta)
  with Cons show ?case by (simp add: accepted_trace_write_value)
qed

lemma accepted_trace_update:
  "accepted_trace (s\<lparr>current_alarms := x\<rparr>) = accepted_trace s"
  "accepted_trace (s\<lparr>production_rate := r\<rparr>) = accepted_trace s"
  "accepted_trace (s\<lparr>total_production := p\<rparr>) = accepted_trace s"
  by (simp_all add: accepted_trace_def)

lemma accepted_writes:
  "accepted (Write_value (MMA, ''State'') (VStr x))"
  "accepted (Write_value (MMA, ''Speed_CPH'') (VInt n))"
  "accepted (Write_value (MMA, ''Total_Production'') (VInt n))"
  "accepted (Write_value (MMA, ''Fault_Routine_Active'') (VBool b))"
  "accepted (Write_value (MMA, ''Manual_Override'') (VBool b))"
  "accepted (Write_value (MMA, ''Air_Dehumidifier'') (VBool b))"
  "accepted (Write_value (MMA, ''Guard_Door_1'') (VBool b))"
  "accepted (Write_value (MMA, ''Level_LT100'') (VFloat d))"
  "accepted (Write_value (MMA, ''Container_Transfer'') (VBool b))"
  "accepted (Write_value (MMA, ''Cap_Feed_Unit'') (VBool b))"
  "accepted (Write_value (MMA, ''Active_Alarms'') (VInt n))"
  "accepted (Write_value (MMA, ''Warning_Count'') (VInt n))"
  "accepted (Write_value (MMA, ''Fault_Count'') (VInt n))"
  "accepted (Write_value (MMA, ''MotorProtector_100'') (VBool b))"
  "accepted (Write_value (MMA, ''MotorProtector_101'') (VBool b))"
  "accepted (Write_value (MMA, ''MotorProtector_103'') (VBool b))"
  "accepted (Write_value (MMA, ''ESTOP_Triggered'') (VBool b))"
  "accepted (Write_value (MMA, ''LevelTooHigh_LT100'') (VBool b))"
  "accepted (Write_value (MMA, ''GuardDoorOpen_1'') (VBool b))"
  "accepted (Write_value (MMA, ''OperatorPanelAccess'') (VBool b))"
  "accepted (Write_value (MMA, ''GuardDoorReset'') (VBool b))"
  "accepted (Write_value (BAS, ''BCM_Server_Status'') (VStr x))"
  "accepted (Write_value (BAS, ''Communication_Health'') (VInt n))"
  "accepted (Write_value (BAS, ''PowerLoss'') (VBool b))"
  "accepted (Write_value (BAS, ''ProfibusFault'') (VBool b))"
  "accepted (Write_value (SDC, ''Power_Supply_Status'') (VStr x))"
  "accepted (Write_value (SDC, ''Servo_Drive_Status'') (VStr x))"
  "accepted (Write_value (SDC, ''Service_Brake_Torque'') (VFloat d))"
  "accepted (Write_value (SBC, ''Position_Deviation'') (VFloat d))"
  "accepted (Write_value (SBC, ''Stretching_Drive_12'') (VFloat d))"
  "accepted (Write_value (SBC, ''Stretching_Drive_13'') (VFloat d))"
  "accepted (Write_value (SBC, ''Stretching_Drive_14'') (VFloat d))"
  "accepted (Write_value (Process, ''Line_State'') (VStr x))"
  by (simp_all add: address_space_def)

lemma accepted_activate_writes:
  "\<forall>w \<in> set (activate_writes deviation alarm). accepted (Write_value (fst w) (snd w))"
  by (auto simp add: activate_writes_def Let_def accepted_writes split: if_splits
      simp del: accepted.simps)

lemma accepted_clear_writes:
  "\<forall>w \<in> set (clear_writes alarm). accepted (Write_value (fst w) (snd w))"
  by (auto simp add: clear_writes_def Let_def accepted_writes split: if_splits
      simp del: accepted.simps)

lemma accepted_trace_activate_alarm:
  "accepted_trace s \<Longrightarrow> accepted_trace (activate_alarm deviation alarm s)"
  unfolding activate_alarm_def
  by (rule accepted_trace_write_values)
     (simp_all add: accepted_trace_update accepted_activate_writes del: accepted.simps)

lemma accepted_trace_clear_random_alarm:
  assumes "accepted_trace s"
  shows "accepted_trace (clear_random_alarm i s)"
proof (cases "current_alarms s = []")
  case True
  with assms show ?thesis by (simp add: clear_random_alarm_def)
next
  case False
  have "accepted_trace (write_values (clear_writes (random_choice i (current_alarms s)))
        (s\<lparr>current_alarms := remove1 (random_choice i (current_alarms s)) (current_alarms s)\<rparr>))"
    using assms
    by (intro accepted_trace_write_values)
       (simp_all add: accepted_trace_update accepted_clear_writes del: accepted.simps)
  with False show ?thesis by (simp add: clear_random_alarm_def Let_def)
qed

lemma accepted_trace_fold_activate:
  "accepted_trace s \<Longrightarrow>
   accepted_trace (fold (\<lambda>(k, alarm) st.
       if int k < n then sleep d (activate_alarm (deviations k) alarm st)
       else activate_alarm (deviations k) alarm st) (enumerate j xs) s)"
  by (induction xs arbitrary: j s)
     (simp_all add: accepted_trace_activate_alarm accepted_trace_sleep)

lemma accepted_trace_trigger_alarm_sequence:
  "accepted_trace s \<Longrightarrow> accepted_trace (trigger_alarm_sequence i deviations s)"
  using accepted_trace_fold_activate
    [of s "int (length (random_choice i (alarm_sequences s))) - 1" "float_lit (1 / 100)" deviations 0
        "take 5 (random_choice i (alarm_sequences s))"]
  by (simp add: trigger_alarm_sequence_def Let_def)

lemma accepted_trace_trigger_random_alarm:
  "accepted_trace s \<Longrightarrow> accepted_trace (trigger_random_alarm i deviation s)"
  by (simp add: trigger_random_alarm_def accepted_trace_activate_alarm)

lemma accepted_trace_update_alarm_counters:
  "accepted_trace s \<Longrightarrow> accepted_trace (update_alarm_counters s)"
  unfolding update_alarm_counters_def Let_def
  by (rule accepted_trace_write_values) (simp_all add: accepted_writes del: accepted.simps)

lemma accepted_scripts:
  "list_all accepted scenario_a_script" "list_all accepted scenario_b_script"
  by (simp_all add: scenario_a_script_def scenario_b_script_def accepted_writes del: accepted.simps)
     simp_all

lemma accepted_trace_scenarios:
  "accepted_trace s \<Longrightarrow> accepted_trace (trigger_scenario_a s)"
  "accepted_trace s \<Longrightarrow> accepted_trace (trigger_scenario_b s)"
  by (simp_all add: accepted_trace_def trigger_scenario_a_def trigger_scenario_b_def
      trace_fold_perform accepted_scripts)

lemma accepted_trace_pass:
  assumes "accepted_trace (server task)"
  shows "accepted_trace (server (simulate_real_alarms_pass inp task))"
proof -
  define task1 where "task1 =
            (if 30 < fsub (fst inp) (last_scenario_time task)
             then task\<lparr>server := (if \<not> scenario_toggle task
                                    then trigger_scenario_a (server task)
                                    else trigger_scenario_b (server task)),
                        scenario_toggle := \<not> scenario_toggle task,
                        last_scenario_time := fst inp\<rparr>
             else task)"
  define s1 where "s1 = trigger_alarm_sequence (sequence_choice (snd inp))
      (sequence_deviations (snd inp)) (server task1)"
  define s2 where "s2 = (if current_alarms s1 \<noteq> []
                  then clear_random_alarm (clear_choice (snd inp)) s1 else s1)"
  define s3 where "s3 = trigger_random_alarm (alarm_choice (snd inp)) (alarm_deviation (snd inp)) s2"
  have res: "server (simulate_real_alarms_pass inp task) =
      sleep (float_lit (5 / 100)) (update_alarm_counters s3)"
    unfolding s3_def s2_def s1_def task1_def by (rule simulate_real_alarms_pass_steps)
  have "accepted_trace (server task1)"
    using assms by (simp add: task1_def accepted_trace_scenarios)
  then have "accepted_trace s1" unfolding s1_def by (rule accepted_trace_trigger_alarm_sequence)
  then have "accepted_trace s2" by (simp add: s2_def accepted_trace_clear_random_alarm)
  then have "accepted_trace s3" unfolding s3_def by (rule accepted_trace_trigger_random_alarm)
  then have "accepted_trace (update_alarm_counters s3)"
    by (rule accepted_trace_update_alarm_counters)
  then have "accepted_trace (sleep (float_lit (5 / 100)) (update_alarm_counters s3))"
    by (rule accepted_trace_sleep)
  then show ?thesis by (simp only: res)
qed

lemma accepted_trace_production_pass:
  "accepted_trace s \<Longrightarrow> accepted_trace (simulate_production_pass s)"
  by (simp add: simulate_production_pass_def Let_def accepted_trace_write_value
      accepted_trace_sleep accepted_trace_update accepted_writes del: accepted.simps)

lemma accepted_trace_run_schedule:
  "accepted_trace (server task) \<Longrightarrow> accepted_trace (server (run_schedule schedule task))"
  unfolding run_schedule_def
proof (induction schedule arbitrary: task)
  case Nil
  then show ?case by simp
next
  case (Cons p ps)
  have "accepted_trace (server (run_pass p task))"
    using Cons.prems by (cases p) (simp_all add: accepted_trace_pass accepted_trace_production_pass)
  with Cons.IH show ?case by simp
qed

lemma accepted_trace_loop:
  "accepted_trace (server task) \<Longrightarrow> accepted_trace (server (simulate_real_alarms inputs task))"
  unfolding simulate_real_alarms_def
  by (induction inputs arbitrary: task) (simp_all add: accepted_trace_pass)

text \<open>
  C5.  The operations that the alarm task awaits, over any number of passes of its loop
  from the started server, never show two scenarios at once: whenever the line state is
  written to STOPPED, the whole script of scenario A or of scenario B follows, and between
  two scripts no node of a scenario is written.  The script of a scenario is the list
  that the specification describes: line state STOPPED, the symptom nodes set one by one,
  5 milliseconds apart, the dwell of ten seconds, the symptom nodes reset, line state
  RUNNING; six symptom nodes for scenario A and four for scenario B.  The scenario is awaited inside
  the pass of the only loop that starts scenarios, so the next pass, and with it the
  other scenario, starts only once the script has run to its end.  No operation of the
  task can fail for a missing node or a value of the wrong kind, which would cut a script
  short: every operation awaited is accepted.
\<close>

theorem scenarios_never_overlap:
  "no_scenario_overlap []
     (trace (server (simulate_real_alarms inputs (start_alarm_task now (started_server loaded)))))
   \<and> trace (trigger_scenario_a self) = trace self @ scenario_a_script
   \<and> trace (trigger_scenario_b self) = trace self @ scenario_b_script
   \<and> scenario_a_script =
       scenario_script
         [(MMA, ''MotorProtector_100''), (MMA, ''MotorProtector_101''),
          (MMA, ''MotorProtector_103''), (MMA, ''ESTOP_Triggered''),
          (BAS, ''PowerLoss''), (BAS, ''ProfibusFault'')]
   \<and> scenario_b_script =
       scenario_script
         [(MMA, ''LevelTooHigh_LT100''), (MMA, ''GuardDoorOpen_1''),
          (MMA, ''OperatorPanelAccess''), (MMA, ''GuardDoorReset'')]
   \<and> list_all accepted
       (trace (server (simulate_real_alarms inputs (start_alarm_task now (started_server loaded)))))"
proof -
  have "accepted_trace (server (start_alarm_task now (started_server loaded)))"
    by (simp add: accepted_trace_def start_alarm_task_def started_server_def)
  then have "accepted_trace (server (simulate_real_alarms inputs
      (start_alarm_task now (started_server loaded))))"
    by (rule accepted_trace_loop)
  then have ok: "list_all accepted
       (trace (server (simulate_real_alarms inputs (start_alarm_task now (started_server loaded)))))"
    by (simp only: accepted_trace_def)
  have "no_scenario_overlap [] (trace (server (start_alarm_task now (started_server loaded))))"
    by (simp add: start_alarm_task_def started_server_def)
  then have run: "no_scenario_overlap []
     (trace (server (simulate_real_alarms inputs (start_alarm_task now (started_server loaded)))))"
    by (rule no_scenario_overlap_loop)
  have a: "trace (trigger_scenario_a self) = trace self @ scenario_a_script"
    and b: "trace (trigger_scenario_b self) = trace self @ scenario_b_script"
    by (simp_all add: trigger_scenario_a_def trigger_scenario_b_def trace_fold_perform)
  have sa: "scenario_a_script =
       scenario_script
         [(MMA, ''MotorProtector_100''), (MMA, ''MotorProtector_101''),
          (MMA, ''MotorProtector_103''), (MMA, ''ESTOP_Triggered''),
          (BAS, ''PowerLoss''), (BAS, ''ProfibusFault'')]"
    by (simp add: scenario_a_script_def scenario_script_def)
  have sb: "scenario_b_script =
       scenario_script
         [(MMA, ''LevelTooHigh_LT100''), (MMA, ''GuardDoorOpen_1''),
          (MMA, ''OperatorPanelAccess''), (MMA, ''GuardDoorReset'')]"
    by (simp add: scenario_b_script_def scenario_script_def)
  from run a b sa sb ok show ?thesis by blast
qed

theorem scenarios_never_overlap_witness:
  "no_scenario_overlap []
     (trace (server (simulate_real_alarms [(31, example_draws), (32, example_draws), (62, example_draws)]
        (start_alarm_task 0 (started_server [])))))
   \<and> take 20 (trace (server (simulate_real_alarms [(31, example_draws), (32, example_draws), (62, example_draws)]
        (start_alarm_task 0 (started_server []))))) = scenario_a_script
   \<and> sublist scenario_b_script
        (trace (server (simulate_real_alarms [(31, example_draws), (32, example_draws), (62, example_draws)]
        (start_alarm_task 0 (started_server [])))))
   \<and> \<not> no_scenario_overlap [] (take 13 scenario_a_script @ scenario_b_script)"
proof -
  let ?tr = "trace (server (simulate_real_alarms [(31, example_draws), (32, example_draws), (62, example_draws)]
        (start_alarm_task 0 (started_server []))))"
  have a: "take 20 ?tr = scenario_a_script" by code_simp
  have b: "sublist scenario_b_script ?tr" by code_simp
  have c: "\<not> no_scenario_overlap [] (take 13 scenario_a_script @ scenario_b_script)" by code_simp
  from scenarios_never_overlap [of "[(31, example_draws), (32, example_draws), (62, example_draws)]"
      0 "[]"] a b c
  show ?thesis by blast
qed

subsection \<open>Efficiency and production rate\<close>

lemma float_lit_two_tenths: "float_lit (1 / 5) = 3602879701896397 / 18014398509481984"
  by code_simp

lemma efficiency_at_20:
  "py_max (float_lit (1 / 5)) (fsub 1 (fmul (float_of_int 20) (float_lit (1 / 10)))) =
     float_lit (1 / 5)"
  by code_simp

lemma efficiency_at_7:
  "py_max (float_lit (1 / 5)) (fsub 1 (fmul (float_of_int 7) (float_lit (1 / 10)))) =
     2702159776422297 / 9007199254740992"
  by code_simp

lemma product_at_7:
  "fmul (float_of_int 18000) (2702159776422297 / 9007199254740992) =
     5937362789990399 / 1099511627776"
  by code_simp

lemma truncation_at_7: "int_of_float (5937362789990399 / 1099511627776) = 5399"
  by code_simp

lemma production_rate_simulate_production_pass:
  "production_rate (simulate_production_pass self) =
     int_of_float (fmul (float_of_int 18000) (efficiency_factor (current_alarms self)))"
  by (simp add: simulate_production_pass_def Let_def)

lemma production_after_two_alarm_passes:
  "length (current_alarms (server (run_schedule
         [Alarm_pass (1, example_draws), Alarm_pass (2, example_draws), Production_pass]
         (start_alarm_task 0 (started_server example_records))))) = 6"
  "production_rate (server (run_schedule
         [Alarm_pass (1, example_draws), Alarm_pass (2, example_draws), Production_pass]
         (start_alarm_task 0 (started_server example_records)))) = 7199"
  by code_simp+

text \<open>
  C8.  In a production pass the efficiency is the float expression
  \<^verbatim>\<open>max(0.2, 1.0 - len * 0.1)\<close> (1.0 when no alarm is active), never below the float 0.2
  nor below one fifth, and exactly the float 0.2 with 20 active alarms.  The production
  rate is the float product of 18000 and the efficiency, truncated by \<^verbatim>\<open>int\<close>.  With 7
  active alarms the efficiency is the float 0.29999999999999993, the product lies
  strictly between 5399 and 5400, and the production rate is 5399, where 18000 times
  \<open>max(0.2, 1 - 0.1 * 7)\<close> is 5400.  The same happens in a state the engine reaches, with
  6 active alarms after two passes of the alarm task: the rate is 7199, not 7200.
\<close>

theorem production_rate_truncates_float_product:
  "production_rate (simulate_production_pass self) =
     int_of_float (fmul (float_of_int 18000) (efficiency_factor (current_alarms self)))
   \<and> efficiency_factor active =
       (if active = [] then 1
        else py_max (float_lit (2 / 10))
               (fsub 1 (fmul (float_of_int (int (length active))) (float_lit (1 / 10)))))
   \<and> float_lit (2 / 10) \<le> efficiency_factor active
   \<and> 1 / 5 \<le> efficiency_factor active
   \<and> efficiency_factor (replicate 20 alarm) = float_lit (2 / 10)
   \<and> efficiency_factor (replicate 7 alarm) = 2702159776422297 / 9007199254740992
   \<and> 5399 < fmul (float_of_int 18000) (efficiency_factor (replicate 7 alarm))
   \<and> fmul (float_of_int 18000) (efficiency_factor (replicate 7 alarm)) < 5400
   \<and> production_rate (simulate_production_pass (self\<lparr>current_alarms := replicate 7 alarm\<rparr>)) = 5399
   \<and> 18000 * max (2 / 10) (1 - 1 / 10 * 7) = (5400 :: rat)
   \<and> length (current_alarms (server (run_schedule
         [Alarm_pass (1, example_draws), Alarm_pass (2, example_draws), Production_pass]
         (start_alarm_task 0 (started_server example_records))))) = 6
   \<and> production_rate (server (run_schedule
         [Alarm_pass (1, example_draws), Alarm_pass (2, example_draws), Production_pass]
         (start_alarm_task 0 (started_server example_records)))) = 7199"
proof -
  have rate: "production_rate (simulate_production_pass self) =
     int_of_float (fmul (float_of_int 18000) (efficiency_factor (current_alarms self)))"
    by (rule production_rate_simulate_production_pass)
  have form: "efficiency_factor active =
       (if active = [] then 1
        else py_max (float_lit (2 / 10))
               (fsub 1 (fmul (float_of_int (int (length active))) (float_lit (1 / 10)))))"
    by (simp add: efficiency_factor_def)
  have floor: "float_lit (2 / 10) \<le> efficiency_factor active"
    by (simp add: efficiency_factor_def py_max_def float_lit_two_tenths)
  have "(1 / 5 :: rat) \<le> float_lit (2 / 10)"
    by (simp add: float_lit_two_tenths)
  then have fifth: "1 / 5 \<le> efficiency_factor active" using floor by (rule order_trans)
  have e20: "efficiency_factor (replicate 20 alarm) = float_lit (2 / 10)"
    using efficiency_at_20 by (simp add: efficiency_factor_def)
  have e7: "efficiency_factor (replicate 7 alarm) = 2702159776422297 / 9007199254740992"
    using efficiency_at_7 by (simp add: efficiency_factor_def)
  have p7: "fmul (float_of_int 18000) (efficiency_factor (replicate 7 alarm)) =
      5937362789990399 / 1099511627776"
    by (simp only: e7 product_at_7)
  have lo: "5399 < fmul (float_of_int 18000) (efficiency_factor (replicate 7 alarm))"
    by (simp add: p7)
  have hi: "fmul (float_of_int 18000) (efficiency_factor (replicate 7 alarm)) < 5400"
    by (simp add: p7)
  have "production_rate (simulate_production_pass (self\<lparr>current_alarms := replicate 7 alarm\<rparr>)) =
      int_of_float (fmul (float_of_int 18000) (efficiency_factor (replicate 7 alarm)))"
    by (simp add: production_rate_simulate_production_pass)
  then have r7: "production_rate (simulate_production_pass (self\<lparr>current_alarms := replicate 7 alarm\<rparr>)) = 5399"
    by (simp only: p7 truncation_at_7)
  have exact: "18000 * max (2 / 10) (1 - 1 / 10 * 7) = (5400 :: rat)" by simp
  show ?thesis
    using rate form floor fifth e20 e7 lo hi r7 exact production_after_two_alarm_passes
    by blast
qed

end
